theory Spec2Isabelle
  imports Main "HOL-Library.Word" "HOL-Library.Multiset"
begin

unbundle bit_operations_syntax

section \<open>Data model of the file cache\<close>

text \<open>
  The embedding follows \<^verbatim>\<open>cache.go\<close> and, of the other files of the package, the
  reader handle (\<^verbatim>\<open>File\<close>), the configuration (\<^verbatim>\<open>Config\<close>), the hash of a key and the
  errors. A \<^verbatim>\<open>Hash\<close> is the 32-byte array
  \<^verbatim>\<open>[HashSize]byte\<close>, a path is a string, a \<^verbatim>\<open>time.Time\<close> is the number of
  nanoseconds since the zero time and a \<^verbatim>\<open>time.Duration\<close> a number of nanoseconds.
  The counters are \<^verbatim>\<open>uint64\<close> (\<^verbatim>\<open>infounit.ByteCount\<close> is an unsigned 64-bit
  count of bytes), the reader counts of \<^verbatim>\<open>refMap\<close> are Go \<^verbatim>\<open>int\<close>, taken at 64 bits.
  Log output has no effect on the cache and is left out.
\<close>

type_synonym hash = "8 word list"
type_synonym path = string

definition HashSize :: nat where
  "HashSize = 32"

datatype error =
    ErrInvalidConfig
  | ErrInternal
  | ErrNotExist
  | ErrOS string
  | Errorf string error

text \<open>\<^verbatim>\<open>errors.Is\<close>: the target is looked for along the chain of wrapped errors.\<close>

fun errors_Is :: "error \<Rightarrow> error \<Rightarrow> bool" where
  "errors_Is (Errorf m e) t = (Errorf m e = t \<or> errors_Is e t)"
| "errors_Is e t = (e = t)"

text \<open>What \<^verbatim>\<open>fs.FileInfo\<close> gives of a file: \<^verbatim>\<open>Size()\<close> (an int64, kept as its 64 bits)
  and \<^verbatim>\<open>ModTime()\<close>.\<close>

record finfo =
  Size :: "64 word"
  ModTime :: int

text \<open>\<^verbatim>\<open>opEntry\<close>: \<^verbatim>\<open>opType\<close> 0 is creating, 1 is removing; \<^verbatim>\<open>done\<close> is a channel
  that is only ever closed, so \<open>done_ch\<close> is the flag "closed". The cache holds entries by pointer:
  \<^verbatim>\<open>opMap\<close> maps a hash to an address, \<open>ops\<close> is the store of the entries and
  \<open>ops_next\<close> the next address the allocator gives out.\<close>

record opEntry =
  opType :: "8 word"
  done_ch :: bool
  err :: "error option"

text \<open>The calls that leave the process: file-system calls and the user's builder.\<close>

datatype io_call =
    IoStat path
  | IoRemove path
  | IoMkdirAll path
  | IoOpenFile path
  | IoCreate
  | IoClose path
  | IoRename path path
  | IoChtimes path
  | IoOpen path
  | IoFileStat path
  | IoWalkDir path
  | IoInfo path

text \<open>
  \<^verbatim>\<open>CreateFunc\<close> is the user's builder. It is given the key, here by its hash, and
  the file opened for it, and returns an error or \<^verbatim>\<open>nil\<close>; what it wrote shows in what
  the later \<^verbatim>\<open>os.Stat\<close> of the file answers.

  \<^verbatim>\<open>Cache\<close>. \<open>mu\<close> is the state of the mutex \<^verbatim>\<open>c.mu\<close> (held or free).
  \<open>trace\<close> is not a field of the source: it records every call of \<open>io_call\<close> in the
  order made, each with the state of the mutex at the moment of the call.
\<close>

type_synonym CreateFunc = "hash \<Rightarrow> error option"

record cache =
  dir :: path
  create :: CreateFunc
  maxFiles :: "64 word"
  maxSize :: "64 word"
  maxAge :: int
  gcInterval :: int
  numFiles :: "64 word"
  totalSize :: "64 word"
  numRequested :: "64 word"
  numHit :: "64 word"
  numCreated :: "64 word"
  numFailed :: "64 word"
  numRemoved :: "64 word"
  opMap :: "hash \<rightharpoonup> nat"
  ops :: "nat \<rightharpoonup> opEntry"
  ops_next :: nat
  refMap :: "hash \<rightharpoonup> 64 word"
  mu :: bool
  trace :: "(io_call \<times> bool) list"

subsection \<open>Outcomes of a routine\<close>

text \<open>
  A routine returns (\<open>Done\<close>), never returns because it blocks for ever (\<open>Blocked\<close>), or
  panics (\<open>Panic\<close>). \<open>then_do\<close> sequences two routines.
\<close>

datatype 'a outcome = Done 'a | Blocked | Panic

definition then_do :: "'a outcome \<Rightarrow> ('a \<Rightarrow> 'b outcome) \<Rightarrow> 'b outcome" where
  "then_do m f = (case m of Done x \<Rightarrow> f x | Blocked \<Rightarrow> Blocked | Panic \<Rightarrow> Panic)"

text \<open>
  \<^verbatim>\<open>c.mu.Lock()\<close> on a held mutex blocks. In the run of one goroutine, with the
  other goroutines' completed critical sections given as changes of the registry, a mutex
  found held is one this goroutine has left held, and the call never returns.
\<close>

definition Lock :: "cache \<Rightarrow> cache outcome" where
  "Lock c = (if mu c then Blocked else Done (c\<lparr>mu := True\<rparr>))"

definition Unlock :: "cache \<Rightarrow> cache" where
  "Unlock c = c\<lparr>mu := False\<rparr>"

definition io :: "io_call \<Rightarrow> cache \<Rightarrow> cache" where
  "io call c = c\<lparr>trace := trace c @ [(call, mu c)]\<rparr>"

text \<open>\<^verbatim>\<open>&opEntry{opType: t, done: make(chan struct{})}\<close>: a new entry at a fresh address.\<close>

definition new_op :: "8 word \<Rightarrow> cache \<Rightarrow> cache" where
  "new_op t c =
     c\<lparr>ops := (ops c)(ops_next c \<mapsto> \<lparr>opType = t, done_ch = False, err = None\<rparr>),
       ops_next := Suc (ops_next c)\<rparr>"

definition close_done :: "nat \<Rightarrow> cache \<Rightarrow> cache" where
  "close_done a c =
     c\<lparr>ops := (case ops c a of None \<Rightarrow> ops c | Some e \<Rightarrow> (ops c)(a \<mapsto> e\<lparr>done_ch := True\<rparr>))\<rparr>"

definition set_err :: "nat \<Rightarrow> error \<Rightarrow> cache \<Rightarrow> cache" where
  "set_err a x c =
     c\<lparr>ops := (case ops c a of None \<Rightarrow> ops c | Some e \<Rightarrow> (ops c)(a \<mapsto> e\<lparr>err := Some x\<rparr>))\<rparr>"

subsection \<open>Reader counts: \<^verbatim>\<open>ref\<close> and \<^verbatim>\<open>unref\<close>\<close>

text \<open>A missing key of a Go map reads as the zero value.\<close>

definition refMap_get :: "cache \<Rightarrow> hash \<Rightarrow> 64 word" where
  "refMap_get c h = (case refMap c h of None \<Rightarrow> 0 | Some v \<Rightarrow> v)"

definition ref :: "hash \<Rightarrow> cache \<Rightarrow> cache outcome" where
  "ref h c =
     then_do (Lock c) (\<lambda>c1.
       let v = refMap_get c1 h in
       Done (Unlock (c1\<lparr>refMap := (refMap c1)(h \<mapsto> v + 1)\<rparr>)))"

definition unref :: "hash \<Rightarrow> cache \<Rightarrow> cache outcome" where
  "unref h c =
     then_do (Lock c) (\<lambda>c1.
       let v = refMap_get c1 h in
       Done (Unlock (if v = 1 then c1\<lparr>refMap := (refMap c1)(h := None)\<rparr>
                     else c1\<lparr>refMap := (refMap c1)(h \<mapsto> v - 1)\<rparr>)))"

text \<open>\<^verbatim>\<open>File.Close\<close>: \<^verbatim>\<open>f.parent.unref(f.hash)\<close>, then the descriptor is closed.\<close>

definition File_Close :: "hash \<Rightarrow> path \<Rightarrow> cache \<Rightarrow> cache outcome" where
  "File_Close h p c = then_do (unref h c) (\<lambda>c1. Done (io (IoClose p) c1))"

subsection \<open>The collector's removal routine \<^verbatim>\<open>rmCache\<close>\<close>

text \<open>
  The closure \<^verbatim>\<open>rmCache\<close> of \<^verbatim>\<open>Serve\<close>. \<open>stat_ans\<close> is what \<^verbatim>\<open>os.Stat(path)\<close>
  answers and \<open>remove_ans\<close> what \<^verbatim>\<open>os.Remove(path)\<close> answers (\<open>None\<close> is success).
  The result is the error returned (\<open>None\<close> is \<^verbatim>\<open>nil\<close>) and the cache after the call.
\<close>

definition rmCache ::
  "hash \<Rightarrow> path \<Rightarrow> int \<Rightarrow> error + finfo \<Rightarrow> error option \<Rightarrow> cache \<Rightarrow> (error option \<times> cache) outcome"
where
  "rmCache h p lastMod stat_ans remove_ans c =
     then_do (Lock c) (\<lambda>c1.
       if h \<in> dom (refMap c1) then Done (None, Unlock c1)
       else
         let c2 = io (IoStat p) c1 in
         case stat_ans of
           Inl e \<Rightarrow> Done (None, c2)
         | Inr fi \<Rightarrow>
             if lastMod \<noteq> ModTime fi then Done (None, c2)
             else
               let a = ops_next c2;
                   c3 = new_op 1 c2;
                   c4 = Unlock (c3\<lparr>opMap := (opMap c3)(h \<mapsto> a)\<rparr>);
                   c5 = io (IoRemove p) c4
               in
               (case remove_ans of
                 Some e \<Rightarrow>
                   then_do (Lock c5) (\<lambda>c6.
                     Done (Some (Errorf ''%x: %w'' e),
                           close_done a (Unlock (c6\<lparr>opMap := (opMap c6)(h := None)\<rparr>))))
               | None \<Rightarrow>
                   then_do (Lock c5) (\<lambda>c6.
                     Done (None,
                           close_done a (Unlock (c6\<lparr>opMap := (opMap c6)(h := None),
                                                   numRemoved := numRemoved c6 + 1,
                                                   numFiles := numFiles c6 - 1,
                                                   totalSize := totalSize c6 - Size fi\<rparr>))))))"

subsection \<open>File names, times\<close>

text \<open>\<^verbatim>\<open>hex.DecodeString\<close>: two hexadecimal digits, of either case, make a byte; a
  string of odd length or with another character is an error.\<close>

definition fromHexChar :: "char \<Rightarrow> 8 word option" where
  "fromHexChar ch =
     (let n = (of_char ch :: nat) in
      if 48 \<le> n \<and> n \<le> 57 then Some (of_nat (n - 48))
      else if 97 \<le> n \<and> n \<le> 102 then Some (of_nat (n - 97 + 10))
      else if 65 \<le> n \<and> n \<le> 70 then Some (of_nat (n - 65 + 10))
      else None)"

fun hex_DecodeString :: "string \<Rightarrow> 8 word list option" where
  "hex_DecodeString [] = Some []"
| "hex_DecodeString [a] = None"
| "hex_DecodeString (a # b # rest) =
     (case (fromHexChar a, fromHexChar b) of
        (Some x, Some y) \<Rightarrow>
          (case hex_DecodeString rest of None \<Rightarrow> None | Some bs \<Rightarrow> Some ((push_bit 4 x OR y) # bs))
      | _ \<Rightarrow> None)"

text \<open>\<^verbatim>\<open>hex.EncodeToString\<close>, with the digits \<^verbatim>\<open>0123456789abcdef\<close>.\<close>

definition hexdigit :: "8 word \<Rightarrow> char" where
  "hexdigit n = ''0123456789abcdef'' ! unat (n AND 15)"

definition hex_EncodeToString :: "8 word list \<Rightarrow> string" where
  "hex_EncodeToString bs = concat (map (\<lambda>b. [hexdigit (drop_bit 4 b), hexdigit b]) bs)"

definition b2hex :: "8 word \<Rightarrow> string" where
  "b2hex b = hex_EncodeToString [b]"

definition hashHex :: "hash \<Rightarrow> string" where
  "hashHex h = hex_EncodeToString h"

text \<open>\<^verbatim>\<open>filepath.Join\<close> of two elements; the lexical cleaning of the result is not
  modelled.\<close>

definition filepath_Join :: "path \<Rightarrow> path \<Rightarrow> path" where
  "filepath_Join a b = a @ ''/'' @ b"

definition filepath_IsAbs :: "path \<Rightarrow> bool" where
  "filepath_IsAbs p = (case p of [] \<Rightarrow> False | ch # _ \<Rightarrow> ch = CHR ''/'')"

text \<open>\<^verbatim>\<open>filepath.Base\<close>: the last element of the path, trailing separators removed.\<close>

definition filepath_Base :: "path \<Rightarrow> path" where
  "filepath_Base p =
     (if p = [] then ''.''
      else let q = rev (dropWhile (\<lambda>ch. ch = CHR ''/'') (rev p)) in
           if q = [] then ''/''
           else rev (takeWhile (\<lambda>ch. ch \<noteq> CHR ''/'') (rev q)))"

text \<open>\<^verbatim>\<open>filePath\<close>: the directory and the full path of the cache file of a hash. The
  hash is a 32-byte array, so the indices \<^verbatim>\<open>HashSize-1\<close> and \<^verbatim>\<open>HashSize-2\<close> are in range.\<close>

definition filePath :: "cache \<Rightarrow> hash \<Rightarrow> path \<times> path" where
  "filePath c h =
     (let d = filepath_Join (filepath_Join (dir c) (b2hex (h ! (HashSize - 1)))) (b2hex (h ! (HashSize - 2)))
      in (d, filepath_Join d (hashHex h)))"

text \<open>\<^verbatim>\<open>time.Since(t)\<close> is \<^verbatim>\<open>time.Now().Sub(t)\<close>: the difference, saturated to the
  range of a \<^verbatim>\<open>Duration\<close> (an int64).\<close>

definition time_Since :: "int \<Rightarrow> int \<Rightarrow> int" where
  "time_Since now t = max (- (2 ^ 63)) (min (2 ^ 63 - 1) (now - t))"

definition defaultGCInterval :: int where
  "defaultGCInterval = 60 * 1000000000"

subsection \<open>Walking the cache directory\<close>

text \<open>
  \<^verbatim>\<open>filepath.WalkDir\<close> belongs to the Go standard library. It is modelled on the
  directory tree it finds: a node is a file or a directory with the entries
  \<^verbatim>\<open>os.ReadDir\<close> gave (and whether \<^verbatim>\<open>ReadDir\<close> failed). A \<open>visit\<close> holds what the
  walker can ask about an entry: the path, \<^verbatim>\<open>d.Name()\<close>, what \<^verbatim>\<open>d.Info()\<close> answers,
  and the clock's reading when the walker handles the entry. The walker is called with
  the visit, \<^verbatim>\<open>d.IsDir()\<close> and whether its \<^verbatim>\<open>err\<close> argument is set; it returns
  \<^verbatim>\<open>nil\<close>, \<^verbatim>\<open>fs.SkipDir\<close> or another error.
\<close>

record visit =
  v_path :: path
  v_name :: string
  v_info :: "error + finfo"
  v_now :: int

datatype fsnode = FileNode visit | DirNode visit bool "fsnode list"

datatype fsroot = LstatFails visit | Root fsnode

datatype wret = WNil | WSkipDir | WErr error

fun walkDir ::
  "(visit \<Rightarrow> bool \<Rightarrow> bool \<Rightarrow> 's \<Rightarrow> (wret \<times> 's) outcome) \<Rightarrow> fsnode \<Rightarrow> 's \<Rightarrow> (wret \<times> 's) outcome"
and walkList ::
  "(visit \<Rightarrow> bool \<Rightarrow> bool \<Rightarrow> 's \<Rightarrow> (wret \<times> 's) outcome) \<Rightarrow> fsnode list \<Rightarrow> 's \<Rightarrow> (wret \<times> 's) outcome"
where
  "walkDir fn (FileNode v) s = fn v False False s"
| "walkDir fn (DirNode v rd_fails kids) s =
     (case fn v True False s of
        Blocked \<Rightarrow> Blocked
      | Panic \<Rightarrow> Panic
      | Done (r, s1) \<Rightarrow>
          if r \<noteq> WNil then Done (if r = WSkipDir then WNil else r, s1)
          else if rd_fails then
            (case fn v True True s1 of
               Blocked \<Rightarrow> Blocked
             | Panic \<Rightarrow> Panic
             | Done (r2, s2) \<Rightarrow>
                 if r2 \<noteq> WNil then Done (if r2 = WSkipDir then WNil else r2, s2)
                 else walkList fn kids s2)
          else walkList fn kids s1)"
| "walkList fn [] s = Done (WNil, s)"
| "walkList fn (k # ks) s =
     (case walkDir fn k s of
        Blocked \<Rightarrow> Blocked
      | Panic \<Rightarrow> Panic
      | Done (r, s1) \<Rightarrow>
          if r \<noteq> WNil then Done (if r = WSkipDir then WNil else r, s1)
          else walkList fn ks s1)"

definition WalkDir ::
  "(visit \<Rightarrow> bool \<Rightarrow> bool \<Rightarrow> 's \<Rightarrow> (wret \<times> 's) outcome) \<Rightarrow> fsroot \<Rightarrow> 's \<Rightarrow> (wret \<times> 's) outcome"
where
  "WalkDir fn root s =
     (case (case root of LstatFails v \<Rightarrow> fn v False True s | Root n \<Rightarrow> walkDir fn n s) of
        Blocked \<Rightarrow> Blocked
      | Panic \<Rightarrow> Panic
      | Done (r, s1) \<Rightarrow> Done (if r = WSkipDir then WNil else r, s1))"

text \<open>
  What the operating system answers during one call of the constructor or one cycle of
  the collector: \<^verbatim>\<open>os.Args[0]\<close>, \<^verbatim>\<open>os.UserCacheDir()\<close>, \<^verbatim>\<open>os.MkdirAll\<close> of the
  cache directory, the tree \<^verbatim>\<open>filepath.WalkDir\<close> finds there, and for each path what
  \<^verbatim>\<open>os.Stat\<close> and \<^verbatim>\<open>os.Remove\<close> answer (\<open>None\<close> is success).
\<close>

record osenv =
  args0 :: string
  userCacheDir :: "error + path"
  mkdirAll :: "error option"
  cache_root :: fsroot
  stat_of :: "path \<Rightarrow> error + finfo"
  remove_of :: "path \<Rightarrow> error option"

subsection \<open>The candidate selector\<close>

record candidate =
  cand_hash :: hash
  cand_path :: path
  cand_lastMod :: int

text \<open>\<^verbatim>\<open>candidate.Less\<close>: \<^verbatim>\<open>c.lastMod.Before(x.lastMod)\<close>.\<close>

definition Less :: "candidate \<Rightarrow> candidate \<Rightarrow> bool" where
  "Less c x = (cand_lastMod c < cand_lastMod x)"

definition zeroCand :: candidate where
  "zeroCand = \<lparr>cand_hash = replicate HashSize 0, cand_path = [], cand_lastMod = 0\<rparr>"

text \<open>
  Modelled from the spec: the left-leaning red-black tree of the library
  \<^verbatim>\<open>github.com/petar/GoLLRB/llrb\<close>, which is not part of this repository. The spec has it
  as "an ordered collection keyed by ascending mtime (oldest first)"; the tree is
  represented by the sequence of its items in that order. \<^verbatim>\<open>InsertNoReplace\<close> goes
  down to the left of an item the new one is \<^verbatim>\<open>Less\<close> than and to the right of any
  other, so the new item comes after the items that are not greater;
  \<^verbatim>\<open>DeleteMax\<close> removes the last item; \<^verbatim>\<open>AscendGreaterOrEqual\<close> visits, in ascending
  order, the items that are not \<^verbatim>\<open>Less\<close> than the pivot.
\<close>

fun tree_InsertNoReplace :: "candidate \<Rightarrow> candidate list \<Rightarrow> candidate list" where
  "tree_InsertNoReplace x [] = [x]"
| "tree_InsertNoReplace x (y # ys) =
     (if Less x y then x # y # ys else y # tree_InsertNoReplace x ys)"

definition tree_DeleteMax :: "candidate list \<Rightarrow> candidate list" where
  "tree_DeleteMax t = butlast t"

definition tree_Len :: "candidate list \<Rightarrow> nat" where
  "tree_Len t = length t"

definition tree_AscendGreaterOrEqual :: "candidate \<Rightarrow> candidate list \<Rightarrow> candidate list" where
  "tree_AscendGreaterOrEqual pivot t = filter (\<lambda>x. \<not> Less x pivot) t"

subsection \<open>The collector: \<^verbatim>\<open>Serve\<close>\<close>

text \<open>The condition of the inner loop of \<^verbatim>\<open>Serve\<close> around \<^verbatim>\<open>c.cond.Wait()\<close>: while it
  holds the collector sleeps. \<open>cancelled\<close> is \<^verbatim>\<open>ctx.Err() != nil\<close>.\<close>

definition gc_waits :: "cache \<Rightarrow> bool \<Rightarrow> bool" where
  "gc_waits c cancelled = (numFiles c \<le> maxFiles c \<and> totalSize c \<le> maxSize c \<and> \<not> cancelled)"

text \<open>The re-check before each candidate.\<close>

definition overflow :: "cache \<Rightarrow> bool" where
  "overflow c = (maxFiles c < numFiles c \<or> maxSize c < totalSize c)"

text \<open>\<^verbatim>\<open>for c.numFiles+maxCands < c.maxFiles { maxCands <<= 1 }\<close>, on \<^verbatim>\<open>uint64\<close>. The
  loop need not end (\<open>maxCands\<close> can reach 0), so it is a partial function.\<close>

partial_function (option) maxCands_loop :: "64 word \<Rightarrow> 64 word \<Rightarrow> 64 word \<Rightarrow> 64 word option" where
  "maxCands_loop nf mf maxCands =
     (if nf + maxCands < mf then maxCands_loop nf mf (push_bit 1 maxCands) else Some maxCands)"

declare maxCands_loop.simps [code]

text \<open>
  The walker of the collector. Its state is the tree of candidates and the cache.
  \<^verbatim>\<open>tree.Len()\<close> is an \<^verbatim>\<open>int\<close> that holds the number of items, so the test
  \<^verbatim>\<open>maxCands < uint64(tree.Len())\<close> compares the numbers.
\<close>

definition gc_walker ::
  "osenv \<Rightarrow> 64 word \<Rightarrow> visit \<Rightarrow> bool \<Rightarrow> bool \<Rightarrow> candidate list \<times> cache
     \<Rightarrow> (wret \<times> candidate list \<times> cache) outcome"
where
  "gc_walker E maxCands v isDir werr s =
     (case s of (tree, c) \<Rightarrow>
      if werr then Done (WSkipDir, tree, c)
      else if isDir then Done (WNil, tree, c)
      else if length (v_name v) \<noteq> HashSize * 2 then Done (WNil, tree, c)
      else
        (case hex_DecodeString (v_name v) of
           None \<Rightarrow> Done (WNil, tree, c)
         | Some fhash \<Rightarrow>
             let c1 = io (IoInfo (v_path v)) c in
             (case v_info v of
                Inl e \<Rightarrow> Done (WNil, tree, c1)
              | Inr fi \<Rightarrow>
                  if maxAge c1 < time_Since (v_now v) (ModTime fi) then
                    (case rmCache fhash (v_path v) (ModTime fi)
                            (stat_of E (v_path v)) (remove_of E (v_path v)) c1 of
                       Blocked \<Rightarrow> Blocked
                     | Panic \<Rightarrow> Panic
                     | Done (e, c2) \<Rightarrow> Done (WNil, tree, c2))
                  else
                    let cand = \<lparr>cand_hash = fhash, cand_path = v_path v, cand_lastMod = ModTime fi\<rparr>;
                        tree1 = tree_InsertNoReplace cand tree
                    in Done (WNil,
                             if unat maxCands < tree_Len tree1 then tree_DeleteMax tree1 else tree1,
                             c1))))"

text \<open>\<^verbatim>\<open>candList\<close>: a slice of \<^verbatim>\<open>tree.Len()\<close> pointers, filled from the front by the
  iterator; a place the iterator does not reach stays \<^verbatim>\<open>nil\<close>.\<close>

definition gc_candList :: "candidate list \<Rightarrow> candidate option list" where
  "gc_candList tree =
     (let xs = tree_AscendGreaterOrEqual zeroCand tree
      in map Some xs @ replicate (tree_Len tree - length xs) None)"

text \<open>The loop over \<^verbatim>\<open>candList\<close>. Reading a field of a \<^verbatim>\<open>nil\<close> candidate panics.\<close>

fun gc_evict :: "osenv \<Rightarrow> candidate option list \<Rightarrow> cache \<Rightarrow> cache outcome" where
  "gc_evict E [] c = Done c"
| "gc_evict E (cand # rest) c =
     (case Lock c of
        Blocked \<Rightarrow> Blocked
      | Panic \<Rightarrow> Panic
      | Done c1 \<Rightarrow>
          if \<not> overflow c1 then Done (Unlock c1)
          else
            let c2 = Unlock c1 in
            (case cand of
               None \<Rightarrow> Panic
             | Some x \<Rightarrow>
                 (case rmCache (cand_hash x) (cand_path x) (cand_lastMod x)
                         (stat_of E (cand_path x)) (remove_of E (cand_path x)) c2 of
                    Blocked \<Rightarrow> Blocked
                  | Panic \<Rightarrow> Panic
                  | Done (e, c3) \<Rightarrow> gc_evict E rest c3)))"

text \<open>One cycle of the collector, from "Started GC" to "GC finished". When
  \<^verbatim>\<open>WalkDir\<close> returns an error the cycle is given up (\<^verbatim>\<open>continue\<close>).\<close>

definition gc_cycle :: "osenv \<Rightarrow> cache \<Rightarrow> cache outcome" where
  "gc_cycle E c =
     (case maxCands_loop (numFiles c) (maxFiles c) 64 of
        None \<Rightarrow> Blocked
      | Some maxCands \<Rightarrow>
          (case WalkDir (gc_walker E maxCands) (cache_root E) ([], io (IoWalkDir (dir c)) c) of
             Blocked \<Rightarrow> Blocked
           | Panic \<Rightarrow> Panic
           | Done (r, tree, c1) \<Rightarrow>
               if r \<noteq> WNil then Done c1 else gc_evict E (gc_candList tree) c1))"

text \<open>
  One turn of the outer loop of \<^verbatim>\<open>Serve\<close>, up to the timer: the collector goes to sleep
  in \<^verbatim>\<open>c.cond.Wait()\<close> (which releases the mutex), returns because the context is
  cancelled, or runs a cycle.
\<close>

datatype serve_turn = Sleeps cache | Returns cache | Cycled cache

definition Serve_turn :: "osenv \<Rightarrow> bool \<Rightarrow> cache \<Rightarrow> serve_turn outcome" where
  "Serve_turn E cancelled c =
     (case Lock c of
        Blocked \<Rightarrow> Blocked
      | Panic \<Rightarrow> Panic
      | Done c1 \<Rightarrow>
          if gc_waits c1 cancelled then Done (Sleeps (Unlock c1))
          else
            let c2 = Unlock c1 in
            if cancelled then Done (Returns c2)
            else (case gc_cycle E c2 of
                    Blocked \<Rightarrow> Blocked
                  | Panic \<Rightarrow> Panic
                  | Done c3 \<Rightarrow> Done (Cycled c3)))"

subsection \<open>The constructor: \<^verbatim>\<open>NewWithConfig\<close>\<close>

record Config =
  Dir :: string
  Create :: "CreateFunc option"
  MaxFiles :: "64 word"
  MaxSize :: "64 word"
  MaxAge :: int
  GCInterval :: int

text \<open>
  The walker of the initial scan. Its state is the cache and the local counters
  \<^verbatim>\<open>numRemoved\<close> and \<^verbatim>\<open>sizeRemoved\<close> (\<open>nRemoved\<close>, \<open>szRemoved\<close>). \<^verbatim>\<open>finfo.Size()\<close> is called before \<^verbatim>\<open>err\<close> is
  looked at: when \<^verbatim>\<open>d.Info()\<close> fails, \<^verbatim>\<open>finfo\<close> is \<^verbatim>\<open>nil\<close> and the call panics.
\<close>

definition init_walker ::
  "osenv \<Rightarrow> visit \<Rightarrow> bool \<Rightarrow> bool \<Rightarrow> cache \<times> 64 word \<times> 64 word
     \<Rightarrow> (wret \<times> cache \<times> 64 word \<times> 64 word) outcome"
where
  "init_walker E v isDir werr s =
     (case s of (c, nRemoved, szRemoved) \<Rightarrow>
      if werr then Done (WSkipDir, s)
      else if isDir then Done (WNil, s)
      else if length (v_name v) \<noteq> HashSize * 2 then Done (WNil, s)
      else if hex_DecodeString (v_name v) = None then Done (WNil, s)
      else
        let c1 = io (IoInfo (v_path v)) c in
        (case v_info v of
           Inl e \<Rightarrow> Panic
         | Inr fi \<Rightarrow>
             let sz = Size fi;
                 age = time_Since (v_now v) (ModTime fi)
             in
             if maxAge c1 < age then
               (let c2 = io (IoRemove (v_path v)) c1 in
                case remove_of E (v_path v) of
                  Some e \<Rightarrow> Done (WNil, c2, nRemoved, szRemoved)
                | None \<Rightarrow> Done (WNil, c2, nRemoved + 1, szRemoved + sz))
             else Done (WNil, c1\<lparr>numFiles := numFiles c1 + 1, totalSize := totalSize c1 + sz\<rparr>,
                        nRemoved, szRemoved)))"

text \<open>The \<^verbatim>\<open>Cache\<close> value the constructor allocates from a valid configuration.\<close>

definition init_cache :: "Config \<Rightarrow> CreateFunc \<Rightarrow> cache" where
  "init_cache conf f =
     \<lparr>dir = Dir conf, create = f,
      maxFiles = MaxFiles conf, maxSize = MaxSize conf,
      maxAge = MaxAge conf, gcInterval = GCInterval conf,
      numFiles = 0, totalSize = 0, numRequested = 0, numHit = 0,
      numCreated = 0, numFailed = 0, numRemoved = 0,
      opMap = Map.empty, ops = Map.empty, ops_next = 0, refMap = Map.empty,
      mu = False, trace = []\<rparr>"

definition NewWithConfig :: "Config \<Rightarrow> osenv \<Rightarrow> (error + cache) outcome" where
  "NewWithConfig conf E =
     (if Dir conf = [] then Done (Inl (Errorf ''%w: empty Dir'' ErrInvalidConfig))
      else
        (case Create conf of
           None \<Rightarrow> Done (Inl (Errorf ''%w: nil Create'' ErrInvalidConfig))
         | Some f \<Rightarrow>
      if MaxAge conf < 0 then Done (Inl (Errorf ''%w: negative MaxAge'' ErrInvalidConfig))
      else if GCInterval conf < 0 then Done (Inl (Errorf ''%w: negative GCInterval'' ErrInvalidConfig))
      else
        let c = init_cache conf f;
            c = (if gcInterval c = 0 then c\<lparr>gcInterval := defaultGCInterval\<rparr> else c);
            c = (if dir c = [] then c\<lparr>dir := filepath_Base (args0 E)\<rparr> else c)
        in
        (case (if \<not> filepath_IsAbs (dir c)
               then (case userCacheDir E of
                       Inl e \<Rightarrow> Inl (Errorf ''%s: can not resolve relative cache dir: %w'' e)
                     | Inr ucd \<Rightarrow> Inr (c\<lparr>dir := filepath_Join ucd (dir c)\<rparr>))
               else Inr c) of
           Inl e \<Rightarrow> Done (Inl e)
         | Inr c \<Rightarrow>
             let c = io (IoMkdirAll (dir c)) c in
             (case mkdirAll E of
                Some e \<Rightarrow> Done (Inl (Errorf ''%s: %w'' e))
              | None \<Rightarrow>
                  (case WalkDir (init_walker E) (cache_root E) (io (IoWalkDir (dir c)) c, 0, 0) of
                     Blocked \<Rightarrow> Blocked
                   | Panic \<Rightarrow> Panic
                   | Done (r, c, nRemoved, szRemoved) \<Rightarrow>
                       (case r of
                          WErr e \<Rightarrow> Done (Inl (Errorf ''%s: failed to read cache dir: %w'' e))
                        | _ \<Rightarrow> Done (Inr c)))))))"

subsection \<open>The coordinator: \<^verbatim>\<open>Get\<close>\<close>

text \<open>
  What the operating system answers during one call of \<^verbatim>\<open>Get\<close>: \<^verbatim>\<open>os.Stat(path)\<close>,
  \<^verbatim>\<open>os.MkdirAll(dir)\<close>, \<^verbatim>\<open>os.OpenFile(tmpPath)\<close>, \<^verbatim>\<open>os.Stat(tmpPath)\<close>,
  \<^verbatim>\<open>os.Rename\<close>, \<^verbatim>\<open>os.Open(path)\<close> and \<^verbatim>\<open>osFile.Stat()\<close>. Each is asked at most once
  in a call. The results of \<^verbatim>\<open>os.Chtimes\<close>, \<^verbatim>\<open>os.Remove\<close> and \<^verbatim>\<open>Close\<close> are
  discarded by \<^verbatim>\<open>Get\<close>.
\<close>

record get_io =
  stat_path :: "error + finfo"
  mkdir_ans :: "error option"
  openFile_ans :: "error option"
  stat_tmp :: "error + finfo"
  rename_ans :: "error option"
  open_ans :: "error option"
  fstat_ans :: "error + finfo"

text \<open>The \<^verbatim>\<open>File\<close> returned: its hash, size and modification time.\<close>

record File =
  f_hash :: hash
  f_size :: "64 word"
  f_lastMod :: int

type_synonym get_result = "File option \<times> bool \<times> error option"

text \<open>
  \<^verbatim>\<open><-op.done\<close> blocks until the channel is closed, which another goroutine does.
  The other goroutines enter the run of \<^verbatim>\<open>Get\<close> as a list of changes of the cache,
  applied one after the other while \<^verbatim>\<open>Get\<close> waits: the wait ends after the first
  change that leaves the channel closed, and never ends when there is none.
\<close>

fun await :: "nat \<Rightarrow> (cache \<Rightarrow> cache) list \<Rightarrow> cache \<Rightarrow> (cache \<times> (cache \<Rightarrow> cache) list) outcome" where
  "await a [] c = Blocked"
| "await a (w # ws) c =
     (case ops (w c) a of
        Some e \<Rightarrow> if done_ch e then Done (w c, ws) else await a ws (w c)
      | None \<Rightarrow> await a ws (w c))"

text \<open>How the loop of \<^verbatim>\<open>Get\<close> is left: by a \<^verbatim>\<open>return\<close>, or by \<^verbatim>\<open>break\<close> with the
  values of \<^verbatim>\<open>created\<close> and \<^verbatim>\<open>lastMod\<close>.\<close>

datatype loop_exit = Return get_result | Break bool int

text \<open>The failure path of a build: the error is stored in the op, the files are removed
  (results discarded), and under the mutex the op is unregistered and \<^verbatim>\<open>numFailed\<close>
  counted; then \<^verbatim>\<open>done\<close> is closed.\<close>

definition Get_fail :: "hash \<Rightarrow> nat \<Rightarrow> error \<Rightarrow> path list \<Rightarrow> cache \<Rightarrow> (loop_exit \<times> cache) outcome" where
  "Get_fail h a e paths c =
     (let c1 = set_err a e c;
          c2 = foldl (\<lambda>c p. io (IoRemove p) c) c1 paths
      in case Lock c2 of
           Blocked \<Rightarrow> Blocked
         | Panic \<Rightarrow> Panic
         | Done c3 \<Rightarrow>
             Done (Return (None, False, Some e),
                   close_done a (Unlock (c3\<lparr>opMap := (opMap c3)(h := None),
                                           numFailed := numFailed c3 + 1\<rparr>))))"

text \<open>The build, from \<^verbatim>\<open>os.MkdirAll(dir)\<close> to \<^verbatim>\<open>created = true\<close>; \<open>a\<close> is the
  address of the op registered for it.\<close>

definition Get_build :: "hash \<Rightarrow> get_io \<Rightarrow> nat \<Rightarrow> cache \<Rightarrow> (loop_exit \<times> cache) outcome" where
  "Get_build h answers a c =
     (let d = fst (filePath c h);
          p = snd (filePath c h);
          tmpPath = p @ ''.tmp'';
          c1 = io (IoMkdirAll d) c
      in
      case mkdir_ans answers of
        Some e \<Rightarrow> Get_fail h a (Errorf ''%s: failed to create: %w'' e) [p] c1
      | None \<Rightarrow>
          let c2 = io (IoOpenFile tmpPath) c1 in
          (case openFile_ans answers of
             Some e \<Rightarrow> Get_fail h a (Errorf ''failed to open file: %w'' e) [tmpPath, p] c2
           | None \<Rightarrow>
               let c3 = io IoCreate c2 in
               (case create c3 h of
                  Some e \<Rightarrow>
                    Get_fail h a (Errorf ''failed to create file: %w'' e) [tmpPath, p]
                      (io (IoClose tmpPath) c3)
                | None \<Rightarrow>
                    let c4 = io (IoClose tmpPath) c3;
                        c5 = io (IoStat tmpPath) c4
                    in
                    (case stat_tmp answers of
                       Inl e \<Rightarrow> Get_fail h a (Errorf ''failed to stat file: %w'' e) [tmpPath, p] c5
                     | Inr fi \<Rightarrow>
                         let sz = Size fi;
                             c6 = io (IoRename tmpPath p) c5
                         in
                         (case rename_ans answers of
                            Some e \<Rightarrow>
                              Get_fail h a (Errorf ''failed to write file: %w'' e) [tmpPath, p] c6
                          | None \<Rightarrow>
                              (case Lock c6 of
                                 Blocked \<Rightarrow> Blocked
                               | Panic \<Rightarrow> Panic
                               | Done c7 \<Rightarrow>
                                   Done (Break True 0,
                                         close_done a
                                           (Unlock (c7\<lparr>numFiles := numFiles c7 + 1,
                                                       totalSize := totalSize c7 + sz,
                                                       opMap := (opMap c7)(h := None),
                                                       numCreated := numCreated c7 + 1\<rparr>)))))))))"

text \<open>
  The loop \<^verbatim>\<open>for isRetry := false; ; isRetry = true\<close>. Only the \<^verbatim>\<open>continue\<close> of the
  removal case comes back to the top, so the loop is a recursion that is entered again
  only from \<open>isRetry = False\<close>. An op whose address holds no entry is a \<^verbatim>\<open>nil\<close> pointer.
\<close>

function Get_loop ::
  "hash \<Rightarrow> get_io \<Rightarrow> bool \<Rightarrow> (cache \<Rightarrow> cache) list \<Rightarrow> cache \<Rightarrow> (loop_exit \<times> cache) outcome"
where
  "Get_loop h answers isRetry ws c =
     (case Lock c of
        Blocked \<Rightarrow> Blocked
      | Panic \<Rightarrow> Panic
      | Done c1 \<Rightarrow>
          let c2 = (if \<not> isRetry then c1\<lparr>numRequested := numRequested c1 + 1\<rparr> else c1) in
          (case opMap c2 h of
             Some a \<Rightarrow>
               (case ops c2 a of
                  None \<Rightarrow> Panic
                | Some op \<Rightarrow>
                    if opType op = 0 then
                      (case await a ws (Unlock (c2\<lparr>numHit := numHit c2 + 1\<rparr>)) of
                         Blocked \<Rightarrow> Blocked
                       | Panic \<Rightarrow> Panic
                       | Done (c3, ws') \<Rightarrow>
                           (case Option.bind (ops c3 a) err of
                              Some e \<Rightarrow> Done (Return (None, False, Some e), c3)
                            | None \<Rightarrow> Done (Break False 0, c3)))
                    else if isRetry then
                      Done (Return (None, False, Some (Errorf ''%w: removal twice'' ErrInternal)),
                            Unlock c2)
                    else
                      (case await a ws (Unlock c2) of
                         Blocked \<Rightarrow> Blocked
                       | Panic \<Rightarrow> Panic
                       | Done (c3, ws') \<Rightarrow> Get_loop h answers True ws' c3))
           | None \<Rightarrow>
               let p = snd (filePath c2 h);
                   c3 = io (IoStat p) c2
               in
               (case stat_path answers of
                  Inl e \<Rightarrow>
                    if \<not> errors_Is e ErrNotExist then
                      Done (Return (None, False, Some (Errorf ''internal error, stat failed: %w'' e)),
                            Unlock (c3\<lparr>numFailed := numFailed c3 + 1\<rparr>))
                    else
                      let a = ops_next c3;
                          c4 = new_op 0 c3;
                          c5 = Unlock (c4\<lparr>opMap := (opMap c4)(h \<mapsto> a)\<rparr>)
                      in Get_build h answers a c5
                | Inr cinfo \<Rightarrow>
                    let c4 = io (IoChtimes p) c3 in
                    Done (Break False (ModTime cinfo), Unlock (c4\<lparr>numHit := numHit c4 + 1\<rparr>)))))"
  by pat_completeness auto
termination
  by (relation "measure (\<lambda>(h, answers, isRetry, ws, c). if isRetry then 0 else 1)") auto

text \<open>\<^verbatim>\<open>Get\<close>, for a key of hash \<open>h\<close>. The result is the triple returned and the cache
  after the call.\<close>

definition Get :: "hash \<Rightarrow> get_io \<Rightarrow> (cache \<Rightarrow> cache) list \<Rightarrow> cache \<Rightarrow> (get_result \<times> cache) outcome" where
  "Get h answers ws c =
     (let p = snd (filePath c h) in
      case Get_loop h answers False ws c of
        Blocked \<Rightarrow> Blocked
      | Panic \<Rightarrow> Panic
      | Done (Return r, c1) \<Rightarrow> Done (r, c1)
      | Done (Break created lastMod, c1) \<Rightarrow>
          let c2 = io (IoOpen p) c1 in
          (case open_ans answers of
             Some e \<Rightarrow> Done ((None, \<not> created, Some (Errorf ''failed to open: %w'' e)), c2)
           | None \<Rightarrow>
               let c3 = io (IoFileStat p) c2 in
               (case fstat_ans answers of
                  Inl e \<Rightarrow>
                    Done ((None, \<not> created, Some (Errorf ''failed to stat: %w'' e)),
                          io (IoClose p) c3)
                | Inr fi \<Rightarrow>
                    let lastMod1 = (if lastMod = 0 then ModTime fi else lastMod);
                        file = \<lparr>f_hash = h, f_size = Size fi, f_lastMod = lastMod1\<rparr>
                    in
                    (case ref h c3 of
                       Blocked \<Rightarrow> Blocked
                     | Panic \<Rightarrow> Panic
                     | Done c4 \<Rightarrow> Done ((Some file, \<not> created, None), c4)))))"

subsection \<open>Sequences of \<^verbatim>\<open>ref\<close> and \<^verbatim>\<open>unref\<close>\<close>

text \<open>A run of calls of \<^verbatim>\<open>ref\<close> (made by a successful \<^verbatim>\<open>Get\<close>) and \<^verbatim>\<open>unref\<close> (made by
  \<^verbatim>\<open>File.Close\<close>), one after the other.\<close>

datatype refop = Ref hash | Unref hash

fun apply_refops :: "refop list \<Rightarrow> cache \<Rightarrow> cache outcome" where
  "apply_refops [] c = Done c"
| "apply_refops (Ref h # rest) c = then_do (ref h c) (apply_refops rest)"
| "apply_refops (Unref h # rest) c = then_do (unref h c) (apply_refops rest)"

subsection \<open>Example inputs\<close>

text \<open>A cache directory \<^verbatim>\<open>/cache\<close> that holds one entry, the file of the key
  \<^verbatim>\<open>Uint64Key(1)\<close>, of 100 bytes and modification time 1000.\<close>

definition ex_hash :: hash where
  "ex_hash = replicate 31 0 @ [1]"

definition ex_conf :: Config where
  "ex_conf = \<lparr>Dir = ''/cache'', Create = Some (\<lambda>h. None), MaxFiles = 0, MaxSize = 0,
              MaxAge = 3600000000000, GCInterval = 0\<rparr>"

definition ex_cache :: cache where
  "ex_cache = init_cache ex_conf (\<lambda>h. None)"

definition ex_name :: string where
  "ex_name = ''0000000000000000000000000000000000000000000000000000000000000001''"

definition ex_path :: path where
  "ex_path = ''/cache/01/00/'' @ ex_name"

definition ex_fi :: finfo where
  "ex_fi = \<lparr>Size = 100, ModTime = 1000\<rparr>"

definition ex_visit :: "error + finfo \<Rightarrow> int \<Rightarrow> visit" where
  "ex_visit ans now = \<lparr>v_path = ex_path, v_name = ex_name, v_info = ans, v_now = now\<rparr>"

definition dir_visit :: "path \<Rightarrow> string \<Rightarrow> visit" where
  "dir_visit p n = \<lparr>v_path = p, v_name = n, v_info = Inr \<lparr>Size = 4096, ModTime = 0\<rparr>, v_now = 0\<rparr>"

definition ex_root :: "error + finfo \<Rightarrow> int \<Rightarrow> fsroot" where
  "ex_root ans now =
     Root (DirNode (dir_visit ''/cache'' ''cache'') False
            [DirNode (dir_visit ''/cache/01'' ''01'') False
               [DirNode (dir_visit ''/cache/01/00'' ''00'') False
                  [FileNode (ex_visit ans now)]]])"

definition ex_env :: "fsroot \<Rightarrow> osenv" where
  "ex_env r = \<lparr>args0 = ''/usr/bin/imgsv'', userCacheDir = Inr ''/home/u/.cache'', mkdirAll = None,
               cache_root = r,
               stat_of = (\<lambda>p. Inr ex_fi),
               remove_of = (\<lambda>p. None)\<rparr>"

subsection \<open>Notions for the statements about \<^verbatim>\<open>Get\<close>\<close>


text \<open>The error of that case on a retry: \<^verbatim>\<open>fmt.Errorf("%w: removal twice", ErrInternal)\<close>.\<close>

definition errRemovalTwice :: error where
  "errRemovalTwice = Errorf ''%w: removal twice'' ErrInternal"

text \<open>
  The wait \<^verbatim>\<open><-op.done\<close> in terms of the other goroutines' changes \<open>ws\<close>: the cache
  after the first \<open>k\<close> changes; the channel of the op at address \<open>a\<close> is closed; \<open>k\<close> is
  the first number of changes after which it is closed; and it is closed after none of
  them.
\<close>

definition after_worlds :: "(cache \<Rightarrow> cache) list \<Rightarrow> cache \<Rightarrow> cache" where
  "after_worlds ws c = foldl (\<lambda>x w. w x) c ws"





text \<open>More example inputs: a cache in which the collector is removing the example entry (a
  removal op is registered for its hash); what the other goroutines do while \<^verbatim>\<open>Get\<close>
  waits, either the removal ends, or it ends and the collector has begun another removal of
  the same hash (the file was built again in between, or \<^verbatim>\<open>os.Remove\<close> had failed), or
  the removal goes on while another request is counted; and the answers of the operating
  system to a \<^verbatim>\<open>Get\<close> that finds no file and builds it.\<close>

definition ex_removing_cache :: cache where
  "ex_removing_cache =
     ex_cache\<lparr>numFiles := 1, totalSize := 100, opMap := [ex_hash \<mapsto> 0],
              ops := [0 \<mapsto> \<lparr>opType = 1, done_ch = False, err = None\<rparr>], ops_next := 1\<rparr>"

definition ex_world_removed :: "cache \<Rightarrow> cache" where
  "ex_world_removed c =
     c\<lparr>numFiles := 0, totalSize := 0, numRemoved := 1, opMap := Map.empty,
       ops := [0 \<mapsto> \<lparr>opType = 1, done_ch = True, err = None\<rparr>]\<rparr>"



definition ex_get_io :: get_io where
  "ex_get_io = \<lparr>stat_path = Inl ErrNotExist, mkdir_ans = None, openFile_ans = None,
                stat_tmp = Inr ex_fi, rename_ans = None, open_ans = None, fstat_ans = Inr ex_fi\<rparr>"

subsection \<open>Notions for the statements about the mutex\<close>

text \<open>The calls made while the mutex was held, in the order made.\<close>

definition held_calls :: "cache \<Rightarrow> io_call list" where
  "held_calls c = map fst (filter snd (trace c))"

text \<open>A change of the cache by the other goroutines that leaves the mutex as it is and
  touches neither the record of calls nor the cache directory.\<close>

definition quiet :: "(cache \<Rightarrow> cache) \<Rightarrow> bool" where
  "quiet w = (\<forall>x. mu (w x) = mu x \<and> trace (w x) = trace x \<and> dir (w x) = dir x)"

subsection \<open>Notions for the statement about the candidate selector\<close>

text \<open>
  The scanned, non-expired entries in the words of the spec (section 4.6, step 4), not of
  the code: a scanned entry is a file whose name is 64 hexadecimal digits and whose stat
  succeeds; it is expired when \<open>now - mtime > max_age\<close> and \<open>max_age \<noteq> 0\<close>; one that is
  not expired is inserted as \<open>{digest, path, mtime}\<close>. With \<open>max_age = 0\<close> no entry is
  expired.
\<close>

definition scanned_candidate :: "int \<Rightarrow> visit \<Rightarrow> candidate option" where
  "scanned_candidate ma v =
     (if length (v_name v) = HashSize * 2 then
        (case hex_DecodeString (v_name v) of
           None \<Rightarrow> None
         | Some fhash \<Rightarrow>
             (case v_info v of
                Inl e \<Rightarrow> None
              | Inr fi \<Rightarrow>
                  if ma \<noteq> 0 \<and> ma < time_Since (v_now v) (ModTime fi) then None
                  else Some \<lparr>cand_hash = fhash, cand_path = v_path v, cand_lastMod = ModTime fi\<rparr>))
      else None)"

text \<open>The files \<^verbatim>\<open>filepath.WalkDir\<close> visits, in the order of the walk: all files of the
  tree but those under a directory that \<^verbatim>\<open>ReadDir\<close> fails on.\<close>

fun files_of :: "fsnode \<Rightarrow> visit list" where
  "files_of (FileNode v) = [v]"
| "files_of (DirNode v rd_fails kids) = (if rd_fails then [] else concat (map files_of kids))"

definition files_of_root :: "fsroot \<Rightarrow> visit list" where
  "files_of_root root = (case root of LstatFails v \<Rightarrow> [] | Root n \<Rightarrow> files_of n)"

text \<open>The spec's retained set: the (at most \<open>n\<close>) candidates with the oldest
  modification times, oldest first; among equal times the one scanned first goes first.\<close>

definition oldest_first :: "nat \<Rightarrow> candidate list \<Rightarrow> candidate list" where
  "oldest_first n cands = take n (sort_key cand_lastMod cands)"

text \<open>The two statements of the walker on the tree: insert, then drop the maximum when
  the tree has grown beyond the capacity; and the walker's effect on the tree for one file.\<close>

definition bounded_insert :: "nat \<Rightarrow> candidate \<Rightarrow> candidate list \<Rightarrow> candidate list" where
  "bounded_insert n x t =
     (let t1 = tree_InsertNoReplace x t in if n < tree_Len t1 then tree_DeleteMax t1 else t1)"

text \<open>An example directory with three entries, modified at 3000, 1000 and 2000.\<close>

definition ex_file :: "string \<Rightarrow> int \<Rightarrow> fsnode" where
  "ex_file name mtime =
     FileNode \<lparr>v_path = ''/cache/01/00/'' @ name, v_name = name,
               v_info = Inr \<lparr>Size = 100, ModTime = mtime\<rparr>, v_now = 5000\<rparr>"

definition ex_root3 :: fsroot where
  "ex_root3 =
     Root (DirNode (dir_visit ''/cache'' ''cache'') False
            [DirNode (dir_visit ''/cache/01'' ''01'') False
               [DirNode (dir_visit ''/cache/01/00'' ''00'') False
                  [ex_file ''1000000000000000000000000000000000000000000000000000000000000001'' 3000,
                   ex_file ''2000000000000000000000000000000000000000000000000000000000000001'' 1000,
                   ex_file ''3000000000000000000000000000000000000000000000000000000000000001'' 2000]]])"

definition gc_step :: "int \<Rightarrow> nat \<Rightarrow> candidate list \<Rightarrow> visit \<Rightarrow> candidate list" where
  "gc_step ma n t v = (case scanned_candidate ma v of None \<Rightarrow> t | Some x \<Rightarrow> bounded_insert n x t)"

text \<open>The operating system over the example directory: \<^verbatim>\<open>os.Stat\<close> of an entry answers
  what the scan saw, \<^verbatim>\<open>os.Remove\<close> succeeds. And a cache over that directory with
  \<^verbatim>\<open>MaxFiles = 2\<close>, \<^verbatim>\<open>MaxSize = 1000\<close> and \<^verbatim>\<open>MaxAge = 0\<close> that counts the three
  entries of 100 bytes, so that the collector is awake: one file over the cap.\<close>

definition ex_env3 :: osenv where
  "ex_env3 =
     (ex_env ex_root3)
       \<lparr>stat_of := (\<lambda>p. case map_of (map (\<lambda>v. (v_path v, v_info v)) (files_of_root ex_root3)) p of
                          None \<Rightarrow> Inl ErrNotExist
                        | Some ans \<Rightarrow> ans)\<rparr>"

definition ex_cache3 :: cache where
  "ex_cache3 =
     (init_cache (ex_conf\<lparr>MaxFiles := 2, MaxSize := 1000, MaxAge := 0\<rparr>) (\<lambda>h. None))
       \<lparr>numFiles := 3, totalSize := 300, numRequested := 3, numCreated := 3\<rparr>"

subsection \<open>Goroutines side by side\<close>

text \<open>
  For the statements about several goroutines, \<^verbatim>\<open>Get\<close> and \<^verbatim>\<open>Serve\<close> are also given step
  by step. A step of a goroutine is one call that leaves the process (a file-system call,
  the start and the return of the builder), or one section between \<^verbatim>\<open>c.mu.Lock()\<close> and
  \<^verbatim>\<open>c.mu.Unlock()\<close> with what follows it up to the next such call. A section under the
  mutex is one step because no other section can run during it; a step that begins with
  \<^verbatim>\<open>Lock\<close> is not possible while the mutex is held. The steps of the goroutines are
  interleaved by a schedule.

  The place of a \<^verbatim>\<open>Get\<close> in its code: at the top of the loop (with \<^verbatim>\<open>isRetry\<close>); waiting
  for \<^verbatim>\<open>op.done\<close> of a creation or of a removal; in the build, before
  \<^verbatim>\<open>os.MkdirAll\<close>, \<^verbatim>\<open>os.OpenFile\<close>, the call of \<^verbatim>\<open>c.create\<close>, inside \<^verbatim>\<open>c.create\<close>,
  before \<^verbatim>\<open>os.Stat(tmpPath)\<close>, \<^verbatim>\<open>os.Rename\<close> and the section that publishes the file; on
  a failure path with the error and the files still to remove; after the loop before
  \<^verbatim>\<open>os.Open\<close>, \<^verbatim>\<open>osFile.Stat\<close> and \<^verbatim>\<open>c.ref\<close>; returned. The builds carry the address
  of their op.
\<close>

datatype get_pc =
    G_Top bool
  | G_WaitCreating nat
  | G_WaitRemoving nat
  | G_MkdirAll nat
  | G_OpenFile nat
  | G_Create nat
  | G_Building nat
  | G_StatTmp nat
  | G_Rename nat "64 word"
  | G_Publish nat "64 word"
  | G_Cleanup nat error "path list"
  | G_Open bool int
  | G_FileStat bool int finfo
  | G_Ref bool File
  | G_Returned get_result

record goroutine =
  g_hash :: hash
  g_pc :: get_pc

text \<open>
  The place of the collector: waiting on the condition; in the walk, with \<^verbatim>\<open>maxCands\<close>
  and the tree; in \<^verbatim>\<open>rmCache\<close> before \<^verbatim>\<open>Lock\<close>, before \<^verbatim>\<open>os.Remove\<close> and before the
  final section; in the loop over \<^verbatim>\<open>candList\<close>; at the timer. \<^verbatim>\<open>rmCache\<close> is called from
  the walker and from the loop over \<^verbatim>\<open>candList\<close> and returns there.
\<close>

datatype gc_cont = ToWalk "64 word" "candidate list" | ToEvict "candidate option list"

datatype gc_pc =
    C_Wait
  | C_Walk "64 word" "candidate list"
  | C_RmLock hash path int gc_cont
  | C_RmRemove nat hash path finfo gc_cont
  | C_RmFinish nat hash finfo "error option" gc_cont
  | C_Evict "candidate option list"
  | C_Timer

text \<open>
  The whole: the cache, the files that exist with their size and modification time, the
  clock, the \<^verbatim>\<open>Get\<close> goroutines and the collector.
\<close>

record world =
  reg :: cache
  files :: "path \<rightharpoonup> finfo"
  clock :: int
  gets :: "goroutine list"
  gc :: gc_pc

text \<open>
  An item of a schedule: a step of the \<^verbatim>\<open>Get\<close> goroutine \<open>i\<close> or of the collector, with
  the error its file-system call fails with, if it is to fail for a reason other than the
  state of the files; the return of the builder of goroutine \<open>i\<close>, which has written a
  file of the given size; the walk of the collector reaching the entry at a path; the end
  of the walk.
\<close>

datatype label =
    GetStep nat "error option"
  | BuilderReturns nat "64 word"
  | GcStep "error option"
  | GcVisit path
  | GcEndWalk

text \<open>What \<^verbatim>\<open>os.Stat\<close> answers for the files as they are.\<close>

definition os_Stat :: "world \<Rightarrow> error option \<Rightarrow> path \<Rightarrow> error + finfo" where
  "os_Stat w fault p =
     (case fault of
        Some e \<Rightarrow> Inl e
      | None \<Rightarrow> (case files w p of None \<Rightarrow> Inl ErrNotExist | Some fi \<Rightarrow> Inr fi))"

definition set_pc :: "nat \<Rightarrow> get_pc \<Rightarrow> world \<Rightarrow> world" where
  "set_pc i pc w = w\<lparr>gets := (gets w)[i := (gets w ! i)\<lparr>g_pc := pc\<rparr>]\<rparr>"

text \<open>The beginning of a failure path in the build: \<^verbatim>\<open>op.err\<close> is set, and the files
  are then removed one by one.\<close>

definition fail_build :: "nat \<Rightarrow> nat \<Rightarrow> error \<Rightarrow> path list \<Rightarrow> world \<Rightarrow> world" where
  "fail_build i a e paths w = set_pc i (G_Cleanup a e paths) (w\<lparr>reg := set_err a e (reg w)\<rparr>)"

text \<open>
  The steps of \<^verbatim>\<open>Get\<close>. \<^verbatim>\<open>os.Rename\<close> and \<^verbatim>\<open>os.Open\<close> fail when their file does not
  exist; \<^verbatim>\<open>os.OpenFile\<close> creates or truncates the temporary file; \<^verbatim>\<open>os.Chtimes\<close> sets
  the modification time to the clock; \<^verbatim>\<open>os.Remove\<close> of the failure paths removes the file
  if it is there.
\<close>

definition get_step :: "nat \<Rightarrow> error option \<Rightarrow> world \<Rightarrow> world option" where
  "get_step i fault w =
     (let c = reg w;
          h = g_hash (gets w ! i);
          d = fst (filePath c h);
          p = snd (filePath c h);
          tmpPath = p @ ''.tmp''
      in
      case g_pc (gets w ! i) of
        G_Top isRetry \<Rightarrow>
          if mu c then None
          else
            let c2 = (if \<not> isRetry then c\<lparr>numRequested := numRequested c + 1\<rparr> else c) in
            (case opMap c2 h of
               Some a \<Rightarrow>
                 (case ops c2 a of
                    None \<Rightarrow> None
                  | Some op \<Rightarrow>
                      if opType op = 0 then
                        Some (set_pc i (G_WaitCreating a) (w\<lparr>reg := c2\<lparr>numHit := numHit c2 + 1\<rparr>\<rparr>))
                      else if isRetry then
                        Some (set_pc i (G_Returned (None, False, Some errRemovalTwice)) (w\<lparr>reg := c2\<rparr>))
                      else Some (set_pc i (G_WaitRemoving a) (w\<lparr>reg := c2\<rparr>)))
             | None \<Rightarrow>
                 (case os_Stat w fault p of
                    Inl e \<Rightarrow>
                      if \<not> errors_Is e ErrNotExist then
                        Some (set_pc i
                               (G_Returned (None, False,
                                            Some (Errorf ''internal error, stat failed: %w'' e)))
                               (w\<lparr>reg := c2\<lparr>numFailed := numFailed c2 + 1\<rparr>\<rparr>))
                      else
                        let a = ops_next c2;
                            c3 = new_op 0 c2
                        in Some (set_pc i (G_MkdirAll a) (w\<lparr>reg := c3\<lparr>opMap := (opMap c3)(h \<mapsto> a)\<rparr>\<rparr>))
                  | Inr cinfo \<Rightarrow>
                      Some (set_pc i (G_Open False (ModTime cinfo))
                             (w\<lparr>reg := c2\<lparr>numHit := numHit c2 + 1\<rparr>,
                                files := (files w)(p \<mapsto> cinfo\<lparr>ModTime := clock w\<rparr>)\<rparr>))))
      | G_WaitCreating a \<Rightarrow>
          (case ops c a of
             None \<Rightarrow> None
           | Some op \<Rightarrow>
               if \<not> done_ch op then None
               else (case err op of
                       Some e \<Rightarrow> Some (set_pc i (G_Returned (None, False, Some e)) w)
                     | None \<Rightarrow> Some (set_pc i (G_Open False 0) w)))
      | G_WaitRemoving a \<Rightarrow>
          (case ops c a of
             None \<Rightarrow> None
           | Some op \<Rightarrow> if \<not> done_ch op then None else Some (set_pc i (G_Top True) w))
      | G_MkdirAll a \<Rightarrow>
          (case fault of
             Some e \<Rightarrow> Some (fail_build i a (Errorf ''%s: failed to create: %w'' e) [p] w)
           | None \<Rightarrow> Some (set_pc i (G_OpenFile a) w))
      | G_OpenFile a \<Rightarrow>
          (case fault of
             Some e \<Rightarrow> Some (fail_build i a (Errorf ''failed to open file: %w'' e) [tmpPath, p] w)
           | None \<Rightarrow>
               Some (set_pc i (G_Create a)
                      (w\<lparr>files := (files w)(tmpPath \<mapsto> \<lparr>Size = 0, ModTime = clock w\<rparr>)\<rparr>)))
      | G_Create a \<Rightarrow> Some (set_pc i (G_Building a) w)
      | G_Building a \<Rightarrow> None
      | G_StatTmp a \<Rightarrow>
          (case os_Stat w fault tmpPath of
             Inl e \<Rightarrow> Some (fail_build i a (Errorf ''failed to stat file: %w'' e) [tmpPath, p] w)
           | Inr fi \<Rightarrow> Some (set_pc i (G_Rename a (Size fi)) w))
      | G_Rename a sz \<Rightarrow>
          (case os_Stat w fault tmpPath of
             Inl e \<Rightarrow> Some (fail_build i a (Errorf ''failed to write file: %w'' e) [tmpPath, p] w)
           | Inr fi \<Rightarrow>
               Some (set_pc i (G_Publish a sz)
                      (w\<lparr>files := (files w)(p \<mapsto> fi, tmpPath := None)\<rparr>)))
      | G_Publish a sz \<Rightarrow>
          if mu c then None
          else Some (set_pc i (G_Open True 0)
                      (w\<lparr>reg := close_done a
                                  (c\<lparr>numFiles := numFiles c + 1,
                                     totalSize := totalSize c + sz,
                                     opMap := (opMap c)(h := None),
                                     numCreated := numCreated c + 1\<rparr>)\<rparr>))
      | G_Cleanup a e (q # qs) \<Rightarrow>
          Some (set_pc i (G_Cleanup a e qs) (w\<lparr>files := (files w)(q := None)\<rparr>))
      | G_Cleanup a e [] \<Rightarrow>
          if mu c then None
          else Some (set_pc i (G_Returned (None, False, Some e))
                      (w\<lparr>reg := close_done a
                                  (c\<lparr>opMap := (opMap c)(h := None),
                                     numFailed := numFailed c + 1\<rparr>)\<rparr>))
      | G_Open created lastMod \<Rightarrow>
          (case os_Stat w fault p of
             Inl e \<Rightarrow>
               Some (set_pc i (G_Returned (None, \<not> created, Some (Errorf ''failed to open: %w'' e))) w)
           | Inr fi \<Rightarrow> Some (set_pc i (G_FileStat created lastMod fi) w))
      | G_FileStat created lastMod fi \<Rightarrow>
          (case fault of
             Some e \<Rightarrow>
               Some (set_pc i (G_Returned (None, \<not> created, Some (Errorf ''failed to stat: %w'' e))) w)
           | None \<Rightarrow>
               Some (set_pc i
                      (G_Ref created
                         \<lparr>f_hash = h, f_size = Size fi,
                          f_lastMod = (if lastMod = 0 then ModTime fi else lastMod)\<rparr>) w))
      | G_Ref created file \<Rightarrow>
          if mu c then None
          else Some (set_pc i (G_Returned (Some file, \<not> created, None))
                      (w\<lparr>reg := c\<lparr>refMap := (refMap c)(h \<mapsto> refMap_get c h + 1)\<rparr>\<rparr>))
      | G_Returned r \<Rightarrow> None)"

text \<open>The builder returns, with the error or \<^verbatim>\<open>nil\<close> that \<^verbatim>\<open>create\<close> gives for the
  hash; \<^verbatim>\<open>f.Close()\<close> follows in the same step.\<close>

definition builder_returns :: "nat \<Rightarrow> 64 word \<Rightarrow> world \<Rightarrow> world option" where
  "builder_returns i n w =
     (let c = reg w;
          h = g_hash (gets w ! i);
          p = snd (filePath c h);
          tmpPath = p @ ''.tmp''
      in
      case g_pc (gets w ! i) of
        G_Building a \<Rightarrow>
          (case create c h of
             Some e \<Rightarrow> Some (fail_build i a (Errorf ''failed to create file: %w'' e) [tmpPath, p] w)
           | None \<Rightarrow>
               Some (set_pc i (G_StatTmp a)
                      (w\<lparr>files := (files w)(tmpPath \<mapsto> \<lparr>Size = n, ModTime = clock w\<rparr>)\<rparr>)))
      | _ \<Rightarrow> None)"

definition gc_continue :: "gc_cont \<Rightarrow> gc_pc" where
  "gc_continue k = (case k of ToWalk mc tree \<Rightarrow> C_Walk mc tree | ToEvict rest \<Rightarrow> C_Evict rest)"

text \<open>
  The steps of the collector outside the walk. While the wait condition holds it sleeps
  in \<^verbatim>\<open>c.cond.Wait()\<close>; the context is taken as never cancelled.
\<close>

definition collector_step :: "error option \<Rightarrow> world \<Rightarrow> world option" where
  "collector_step fault w =
     (let c = reg w in
      case gc w of
        C_Wait \<Rightarrow>
          if mu c then None
          else if gc_waits c False then Some w
          else (case maxCands_loop (numFiles c) (maxFiles c) 64 of
                  None \<Rightarrow> None
                | Some maxCands \<Rightarrow> Some (w\<lparr>gc := C_Walk maxCands []\<rparr>))
      | C_Walk maxCands tree \<Rightarrow> None
      | C_RmLock h p lastMod k \<Rightarrow>
          if mu c then None
          else if h \<in> dom (refMap c) then Some (w\<lparr>gc := gc_continue k\<rparr>)
          else
            (case os_Stat w fault p of
               Inl e \<Rightarrow> Some (w\<lparr>reg := c\<lparr>mu := True\<rparr>, gc := gc_continue k\<rparr>)
             | Inr fi \<Rightarrow>
                 if lastMod \<noteq> ModTime fi then Some (w\<lparr>reg := c\<lparr>mu := True\<rparr>, gc := gc_continue k\<rparr>)
                 else
                   let a = ops_next c;
                       c3 = new_op 1 c
                   in Some (w\<lparr>reg := c3\<lparr>opMap := (opMap c3)(h \<mapsto> a)\<rparr>,
                              gc := C_RmRemove a h p fi k\<rparr>))
      | C_RmRemove a h p fi k \<Rightarrow>
          (case os_Stat w fault p of
             Inl e \<Rightarrow> Some (w\<lparr>gc := C_RmFinish a h fi (Some e) k\<rparr>)
           | Inr x \<Rightarrow> Some (w\<lparr>files := (files w)(p := None), gc := C_RmFinish a h fi None k\<rparr>))
      | C_RmFinish a h fi res k \<Rightarrow>
          if mu c then None
          else
            (case res of
               Some e \<Rightarrow>
                 Some (w\<lparr>reg := close_done a (c\<lparr>opMap := (opMap c)(h := None)\<rparr>),
                         gc := gc_continue k\<rparr>)
             | None \<Rightarrow>
                 Some (w\<lparr>reg := close_done a
                                  (c\<lparr>opMap := (opMap c)(h := None),
                                     numRemoved := numRemoved c + 1,
                                     numFiles := numFiles c - 1,
                                     totalSize := totalSize c - Size fi\<rparr>),
                         gc := gc_continue k\<rparr>))
      | C_Evict [] \<Rightarrow> Some (w\<lparr>gc := C_Timer\<rparr>)
      | C_Evict (cand # rest) \<Rightarrow>
          if mu c then None
          else if \<not> overflow c then Some (w\<lparr>gc := C_Timer\<rparr>)
          else (case cand of
                  None \<Rightarrow> None
                | Some x \<Rightarrow>
                    Some (w\<lparr>gc := C_RmLock (cand_hash x) (cand_path x) (cand_lastMod x) (ToEvict rest)\<rparr>))
      | C_Timer \<Rightarrow> Some (w\<lparr>gc := C_Wait\<rparr>))"

text \<open>
  The walk. \<^verbatim>\<open>filepath.WalkDir\<close> calls the walker for the entries it finds; here the
  schedule says which entry the walk reaches next and when it ends. For a file the walker
  checks the name, asks \<^verbatim>\<open>d.Info()\<close>, and calls \<^verbatim>\<open>rmCache\<close> for an expired entry or
  inserts a candidate.
\<close>

definition gc_visit :: "path \<Rightarrow> world \<Rightarrow> world option" where
  "gc_visit p w =
     (let c = reg w in
      case gc w of
        C_Walk maxCands tree \<Rightarrow>
          let fname = filepath_Base p in
          if length fname \<noteq> HashSize * 2 then Some w
          else
            (case hex_DecodeString fname of
               None \<Rightarrow> Some w
             | Some fhash \<Rightarrow>
                 (case files w p of
                    None \<Rightarrow> Some w
                  | Some fi \<Rightarrow>
                      if maxAge c < time_Since (clock w) (ModTime fi) then
                        Some (w\<lparr>gc := C_RmLock fhash p (ModTime fi) (ToWalk maxCands tree)\<rparr>)
                      else
                        let cand = \<lparr>cand_hash = fhash, cand_path = p, cand_lastMod = ModTime fi\<rparr>;
                            tree1 = tree_InsertNoReplace cand tree
                        in Some (w\<lparr>gc := C_Walk maxCands
                                          (if unat maxCands < tree_Len tree1
                                           then tree_DeleteMax tree1 else tree1)\<rparr>)))
      | _ \<Rightarrow> None)"

definition gc_end_walk :: "world \<Rightarrow> world option" where
  "gc_end_walk w =
     (case gc w of
        C_Walk maxCands tree \<Rightarrow> Some (w\<lparr>gc := C_Evict (gc_candList tree)\<rparr>)
      | _ \<Rightarrow> None)"

text \<open>One step of the schedule (the clock advances by one with each), and a run.\<close>

definition step :: "label \<Rightarrow> world \<Rightarrow> world option" where
  "step l w =
     map_option (\<lambda>w'. w'\<lparr>clock := clock w' + 1\<rparr>)
       (case l of
          GetStep i fault \<Rightarrow> if i < length (gets w) then get_step i fault w else None
        | BuilderReturns i n \<Rightarrow> if i < length (gets w) then builder_returns i n w else None
        | GcStep fault \<Rightarrow> collector_step fault w
        | GcVisit p \<Rightarrow> gc_visit p w
        | GcEndWalk \<Rightarrow> gc_end_walk w)"

fun run :: "label list \<Rightarrow> world \<Rightarrow> world option" where
  "run [] w = Some w"
| "run (l # ls) w = (case step l w of None \<Rightarrow> None | Some w' \<Rightarrow> run ls w')"

text \<open>The goroutines that are inside the builder for a hash.\<close>

definition building :: "world \<Rightarrow> hash \<Rightarrow> nat list" where
  "building w h =
     filter (\<lambda>i. g_hash (gets w ! i) = h \<and> (case g_pc (gets w ! i) of G_Building a \<Rightarrow> True | _ \<Rightarrow> False))
       [0 ..< length (gets w)]"

text \<open>
  An example: a cache with \<^verbatim>\<open>MaxFiles = 100\<close>, \<^verbatim>\<open>MaxSize = 150\<close> and a maximum age of one
  hour that holds one entry of 200 bytes (key \<^verbatim>\<open>Uint64Key(2)\<close>), open in a reader; three
  calls of \<^verbatim>\<open>Get\<close> for the key \<^verbatim>\<open>Uint64Key(1)\<close>; and the collector, which is over its
  size cap. In the schedule the first \<^verbatim>\<open>Get\<close> builds the file and renames it into place;
  before it takes the mutex to publish, the collector runs a cycle, in which it skips the
  entry that is read and removes the new file; the second \<^verbatim>\<open>Get\<close> then finds neither op
  nor file and starts the builder; the first \<^verbatim>\<open>Get\<close> publishes, which deletes the op
  registered for the hash; the third \<^verbatim>\<open>Get\<close> finds neither op nor file and starts the
  builder too.
\<close>

definition ex_hash2 :: hash where
  "ex_hash2 = replicate 31 0 @ [2]"

definition ex_path2 :: path where
  "ex_path2 = ''/cache/02/00/0000000000000000000000000000000000000000000000000000000000000002''"

definition ex_world :: world where
  "ex_world =
     \<lparr>reg = (init_cache (ex_conf\<lparr>MaxFiles := 100, MaxSize := 150\<rparr>) (\<lambda>h. None))
               \<lparr>numFiles := 1, totalSize := 200, numRequested := 1, numCreated := 1,
                refMap := [ex_hash2 \<mapsto> 1]\<rparr>,
      files = [ex_path2 \<mapsto> \<lparr>Size = 200, ModTime = 1000\<rparr>],
      clock = 2000,
      gets = [\<lparr>g_hash = ex_hash, g_pc = G_Top False\<rparr>,
              \<lparr>g_hash = ex_hash, g_pc = G_Top False\<rparr>,
              \<lparr>g_hash = ex_hash, g_pc = G_Top False\<rparr>],
      gc = C_Wait\<rparr>"

definition ex_schedule :: "label list" where
  "ex_schedule =
     [GetStep 0 None, GetStep 0 None, GetStep 0 None, GetStep 0 None, BuilderReturns 0 100,
      GetStep 0 None, GetStep 0 None,
      GcStep None, GcVisit ex_path, GcVisit ex_path2, GcEndWalk,
      GcStep None, GcStep None, GcStep None, GcStep None, GcStep None, GcStep None,
      GetStep 1 None, GetStep 1 None, GetStep 1 None, GetStep 1 None,
      GetStep 0 None,
      GetStep 2 None, GetStep 2 None, GetStep 2 None, GetStep 2 None]"

text \<open>
  Notions for the statement about \<^verbatim>\<open>Get\<close> goroutines on their own. A goroutine is in
  its build, with the op at address \<open>a\<close>, from the registration of the op to the section
  that unregisters it.
\<close>

fun build_op :: "get_pc \<Rightarrow> nat option" where
  "build_op (G_MkdirAll a) = Some a"
| "build_op (G_OpenFile a) = Some a"
| "build_op (G_Create a) = Some a"
| "build_op (G_Building a) = Some a"
| "build_op (G_StatTmp a) = Some a"
| "build_op (G_Rename a sz) = Some a"
| "build_op (G_Publish a sz) = Some a"
| "build_op (G_Cleanup a e ps) = Some a"
| "build_op _ = None"

text \<open>What a step of goroutine \<open>i\<close> does to the goroutines and to \<^verbatim>\<open>opMap\<close>: the others
  are untouched, and the step registers an op for its hash where none was and enters the
  build, or leaves the build and unregisters the op of its hash, or leaves both as they
  are.\<close>

definition effect :: "nat \<Rightarrow> world \<Rightarrow> world \<Rightarrow> bool" where
  "effect i w w' =
     (let h = g_hash (gets w ! i); pc = g_pc (gets w ! i); pc' = g_pc (gets w' ! i) in
      length (gets w') = length (gets w) \<and>
      (\<forall>j. j \<noteq> i \<longrightarrow> gets w' ! j = gets w ! j) \<and>
      g_hash (gets w' ! i) = h \<and>
      ((build_op pc = None \<and> opMap (reg w) h = None \<and>
        (\<exists>a. opMap (reg w') = (opMap (reg w))(h \<mapsto> a) \<and> build_op pc' = Some a)) \<or>
       (build_op pc \<noteq> None \<and> build_op pc' = None \<and> opMap (reg w') = (opMap (reg w))(h := None)) \<or>
       (opMap (reg w') = opMap (reg w) \<and> build_op pc' = build_op pc)))"

text \<open>Every goroutine in its build has its op registered for its hash; no two goroutines
  of one hash are in their builds.\<close>

definition owns_op :: "world \<Rightarrow> bool" where
  "owns_op w =
     (\<forall>i<length (gets w). \<forall>a. build_op (g_pc (gets w ! i)) = Some a \<longrightarrow>
        opMap (reg w) (g_hash (gets w ! i)) = Some a)"

definition one_build :: "world \<Rightarrow> bool" where
  "one_build w =
     (\<forall>i<length (gets w). \<forall>j<length (gets w).
        i \<noteq> j \<and> g_hash (gets w ! i) = g_hash (gets w ! j) \<and> build_op (g_pc (gets w ! i)) \<noteq> None \<longrightarrow>
        build_op (g_pc (gets w ! j)) = None)"

text \<open>The items of a schedule that are steps of \<^verbatim>\<open>Get\<close> goroutines.\<close>

fun get_label :: "label \<Rightarrow> bool" where
  "get_label (GetStep i fault) = True"
| "get_label (BuilderReturns i n) = True"
| "get_label _ = False"

section \<open>Properties\<close>

subsection \<open>Facts about the example inputs\<close>

lemma ex_name_decodes: "hex_DecodeString ex_name = Some ex_hash"
  by code_simp

lemma ex_name_length: "length ex_name = 64"
  by code_simp

lemma ex_name_hashHex: "hashHex ex_hash = ex_name"
  by code_simp

lemma ex_path_filePath: "snd (filePath ex_cache ex_hash) = ex_path"
  by code_simp

lemma maxCands_loop_ex: "maxCands_loop 1 0 64 = Some 64"
  by (subst maxCands_loop.simps) simp

lemmas ex_defs = ex_conf_def ex_env_def ex_root_def ex_visit_def dir_visit_def ex_fi_def ex_cache_def

lemmas run_defs = NewWithConfig_def init_cache_def filepath_IsAbs_def WalkDir_def init_walker_def
  HashSize_def io_def Serve_turn_def gc_cycle_def gc_walker_def gc_candList_def
  tree_AscendGreaterOrEqual_def tree_Len_def tree_DeleteMax_def Less_def zeroCand_def
  Lock_def Unlock_def then_do_def rmCache_def new_op_def close_done_def time_Since_def
  gc_waits_def overflow_def

subsection \<open>Caps of zero\<close>

text \<open>
  Claim C1 says that a cap of zero is disabled: with \<^verbatim>\<open>maxFiles = 0\<close> (or
  \<^verbatim>\<open>maxSize = 0\<close>) the collector is not woken by the file count (the bytes) and the
  re-check reports no overflow. The code compares the counters with the caps as they
  are. With a cap of zero and one file (one byte) the wait condition of the collector is
  false, so it wakes, and the re-check reports overflow, whatever the other fields are.
  In the example the constructor finds one entry of 100 bytes, one hour not yet old,
  under \<^verbatim>\<open>MaxFiles = 0\<close> and \<^verbatim>\<open>MaxSize = 0\<close>, and the collector's next turn runs a
  cycle that removes it.
\<close>

theorem zero_cap_wakes_and_evicts:
  "\<not> gc_waits (c\<lparr>maxFiles := 0, numFiles := 1\<rparr>) cancelled \<and>
   overflow (c\<lparr>maxFiles := 0, numFiles := 1\<rparr>) \<and>
   \<not> gc_waits (c\<lparr>maxSize := 0, totalSize := 1\<rparr>) cancelled \<and>
   overflow (c\<lparr>maxSize := 0, totalSize := 1\<rparr>) \<and>
   (case NewWithConfig ex_conf (ex_env (ex_root (Inr ex_fi) 2000)) of
      Done (Inr c0) \<Rightarrow>
        maxFiles c0 = 0 \<and> maxSize c0 = 0 \<and> numFiles c0 = 1 \<and> totalSize c0 = 100 \<and>
        (case Serve_turn (ex_env (ex_root (Inr ex_fi) 3000)) False c0 of
           Done (Cycled c1) \<Rightarrow>
             numFiles c1 = 0 \<and> numRemoved c1 = 1 \<and> last (trace c1) = (IoRemove ex_path, False)
         | _ \<Rightarrow> False)
    | _ \<Rightarrow> False)"
proof -
  have a: "\<not> gc_waits (c\<lparr>maxFiles := 0, numFiles := 1\<rparr>) cancelled"
    by (simp add: gc_waits_def)
  have b: "overflow (c\<lparr>maxFiles := 0, numFiles := 1\<rparr>)"
    by (simp add: overflow_def)
  have c: "\<not> gc_waits (c\<lparr>maxSize := 0, totalSize := 1\<rparr>) cancelled"
    by (simp add: gc_waits_def)
  have d: "overflow (c\<lparr>maxSize := 0, totalSize := 1\<rparr>)"
    by (simp add: overflow_def)
  have e: "(case NewWithConfig ex_conf (ex_env (ex_root (Inr ex_fi) 2000)) of
      Done (Inr c0) \<Rightarrow>
        maxFiles c0 = 0 \<and> maxSize c0 = 0 \<and> numFiles c0 = 1 \<and> totalSize c0 = 100 \<and>
        (case Serve_turn (ex_env (ex_root (Inr ex_fi) 3000)) False c0 of
           Done (Cycled c1) \<Rightarrow>
             numFiles c1 = 0 \<and> numRemoved c1 = 1 \<and> last (trace c1) = (IoRemove ex_path, False)
         | _ \<Rightarrow> False)
    | _ \<Rightarrow> False)"
    by (simp add: ex_defs run_defs ex_name_decodes ex_name_length maxCands_loop_ex Let_def)
  from a b c d e show ?thesis by blast
qed

subsection \<open>A maximum age of zero\<close>

text \<open>
  Claim C2 says that with \<^verbatim>\<open>maxAge = 0\<close> no entry is removed on account of its age,
  by the initial scan or by the collector. Both test \<^verbatim>\<open>c.maxAge < age\<close> with no case
  for zero. In the example the entry is one nanosecond old and \<^verbatim>\<open>MaxAge = 0\<close>, the caps
  (10 files, 1000 bytes) are not reached: the constructor removes the file and counts no
  entry, and the walker of the collector hands the entry to \<^verbatim>\<open>rmCache\<close>, which removes
  it, instead of making it a candidate.
\<close>

theorem zero_maxAge_removes_entry:
  "(case NewWithConfig (ex_conf\<lparr>MaxFiles := 10, MaxSize := 1000, MaxAge := 0\<rparr>)
           (ex_env (ex_root (Inr ex_fi) 1001)) of
      Done (Inr c0) \<Rightarrow> numFiles c0 = 0 \<and> last (trace c0) = (IoRemove ex_path, False)
    | _ \<Rightarrow> False) \<and>
   (case gc_walker (ex_env (ex_root (Inr ex_fi) 1001)) 64 (ex_visit (Inr ex_fi) 1001) False False
           ([], ex_cache\<lparr>maxFiles := 10, maxSize := 1000, maxAge := 0,
                          numFiles := 1, totalSize := 100\<rparr>) of
      Done (r, tree, c1) \<Rightarrow>
        tree = [] \<and> numFiles c1 = 0 \<and> numRemoved c1 = 1 \<and>
        last (trace c1) = (IoRemove ex_path, False)
    | _ \<Rightarrow> False)"
  by code_simp

subsection \<open>Unreadable entries in the initial scan\<close>

text \<open>
  Claim C7 says that the initial scan skips an entry whose \<^verbatim>\<open>d.Info()\<close> fails and
  completes. The walker calls \<^verbatim>\<open>finfo.Size()\<close> on the result before it looks at the
  error, so for such an entry (here the file has vanished since the directory was read)
  the constructor panics instead of returning a cache.
\<close>

theorem initial_scan_panics_on_failed_Info:
  "NewWithConfig ex_conf (ex_env (ex_root (Inl ErrNotExist) 2000)) = Panic"
  by (simp add: ex_defs run_defs ex_name_decodes ex_name_length Let_def)

subsection \<open>An empty \<^verbatim>\<open>Dir\<close>\<close>

text \<open>
  Claim C8 says that the constructor accepts an empty root directory and derives the
  directory from the program's name. The first case of the validation rejects an empty
  \<^verbatim>\<open>Dir\<close>: for every configuration and every environment the result is the error
  \<^verbatim>\<open>ErrInvalidConfig\<close>, and the later fallback to \<^verbatim>\<open>filepath.Base(os.Args[0])\<close> is never
  reached.
\<close>

theorem NewWithConfig_rejects_empty_Dir:
  "NewWithConfig (conf\<lparr>Dir := []\<rparr>) E = Done (Inl (Errorf ''%w: empty Dir'' ErrInvalidConfig)) \<and>
   errors_Is (Errorf ''%w: empty Dir'' ErrInvalidConfig) ErrInvalidConfig"
  by (simp add: NewWithConfig_def)

subsection \<open>The mutex on the paths of \<^verbatim>\<open>rmCache\<close>\<close>

text \<open>
  Claim C9 says that every returning path of \<^verbatim>\<open>rmCache\<close> releases the mutex. Two do
  not: when the digest has no entry in \<^verbatim>\<open>refMap\<close> and \<^verbatim>\<open>os.Stat\<close> fails, or the
  modification time differs from the snapshot, \<^verbatim>\<open>rmCache\<close> returns \<^verbatim>\<open>nil\<close> with the mutex
  still held, and the next call of \<^verbatim>\<open>rmCache\<close> blocks for ever in \<^verbatim>\<open>Lock\<close>.
\<close>

theorem rmCache_skip_paths_keep_mutex:
  assumes "\<not> mu c" and "h \<notin> dom (refMap c)"
    and "stat_ans = Inl e \<or> (\<exists>fi. stat_ans = Inr fi \<and> ModTime fi \<noteq> lastMod)"
  shows "\<exists>c'. rmCache h p lastMod stat_ans remove_ans c = Done (None, c') \<and> mu c' \<and>
              rmCache h2 p2 lastMod2 stat_ans2 remove_ans2 c' = Blocked"
  using assms
  by (auto simp add: rmCache_def Lock_def then_do_def io_def Unlock_def)

theorem rmCache_skip_paths_keep_mutex_witness:
  "(case rmCache ex_hash ex_path 1000 (Inl ErrNotExist) None ex_cache of
      Done (e, c') \<Rightarrow> e = None \<and> mu c' \<and>
         (case rmCache ex_hash ex_path 1000 (Inr ex_fi) None c' of Blocked \<Rightarrow> True | _ \<Rightarrow> False)
    | _ \<Rightarrow> False)"
proof -
  have 1: "\<not> mu ex_cache" by (simp add: ex_cache_def init_cache_def)
  have 2: "ex_hash \<notin> dom (refMap ex_cache)" by (simp add: ex_cache_def init_cache_def)
  from rmCache_skip_paths_keep_mutex [OF 1 2, of "Inl ErrNotExist" ErrNotExist 1000 ex_path
      None ex_hash ex_path 1000 "Inr ex_fi" None]
  show ?thesis by auto
qed

subsection \<open>Reader counts and eviction\<close>

lemma unlock_lock_id: "\<not> mu c \<Longrightarrow> (c\<lparr>mu := False\<rparr>) = c"
  by (cases c) simp

lemma ref_free: "\<not> mu c \<Longrightarrow> ref h c = Done (c\<lparr>refMap := (refMap c)(h \<mapsto> refMap_get c h + 1)\<rparr>)"
  by (cases c) (simp add: ref_def Lock_def Unlock_def then_do_def refMap_get_def)

lemma unref_free:
  "\<not> mu c \<Longrightarrow> unref h c = Done (if refMap_get c h = 1 then c\<lparr>refMap := (refMap c)(h := None)\<rparr>
                                   else c\<lparr>refMap := (refMap c)(h \<mapsto> refMap_get c h - 1)\<rparr>)"
  by (cases c) (simp add: unref_def Lock_def Unlock_def then_do_def refMap_get_def)

lemma rmCache_refed: "\<not> mu c \<Longrightarrow> h \<in> dom (refMap c) \<Longrightarrow> rmCache h p lm sa ra c = Done (None, c)"
  by (cases c) (auto simp add: rmCache_def Lock_def Unlock_def then_do_def)

lemma ref_mu: "ref h c = Done c' \<Longrightarrow> \<not> mu c'"
  by (auto simp add: ref_def Lock_def Unlock_def then_do_def Let_def split: if_splits)

lemma unref_mu: "unref h c = Done c' \<Longrightarrow> \<not> mu c'"
  by (auto simp add: unref_def Lock_def Unlock_def then_do_def Let_def split: if_splits)

lemma then_do_Done: "then_do m f = Done y \<Longrightarrow> \<exists>x. m = Done x \<and> f x = Done y"
  by (cases m) (simp_all add: then_do_def)

lemma entry_removed_only_at_one:
  "\<not> mu c \<Longrightarrow> apply_refops rops c = Done c' \<Longrightarrow> h \<in> dom (refMap c) \<Longrightarrow> h \<notin> dom (refMap c') \<Longrightarrow>
   \<exists>pre post c1. rops = pre @ Unref h # post \<and> apply_refops pre c = Done c1 \<and> refMap c1 h = Some 1"
proof (induction rops arbitrary: c)
  case Nil
  then show ?case by simp
next
  case (Cons x rops)
  show ?case
  proof (cases x)
    case (Ref g)
    from Cons.prems Ref obtain c1 where c1: "ref g c = Done c1" and r: "apply_refops rops c1 = Done c'"
      by (auto dest: then_do_Done)
    have m: "\<not> mu c1" using c1 by (rule ref_mu)
    have d: "h \<in> dom (refMap c1)" using c1 Cons.prems(1,3) by (auto simp add: ref_free)
    from Cons.IH[OF m r d Cons.prems(4)] obtain pre post c2 where
      "rops = pre @ Unref h # post" "apply_refops pre c1 = Done c2" "refMap c2 h = Some 1" by blast
    then have "x # rops = (x # pre) @ Unref h # post \<and> apply_refops (x # pre) c = Done c2 \<and> refMap c2 h = Some 1"
      using Ref c1 by (simp add: then_do_def)
    then show ?thesis by blast
  next
    case (Unref g)
    from Cons.prems Unref obtain c1 where c1: "unref g c = Done c1" and r: "apply_refops rops c1 = Done c'"
      by (auto dest: then_do_Done)
    have m: "\<not> mu c1" using c1 by (rule unref_mu)
    show ?thesis
    proof (cases "g = h \<and> refMap c h = Some 1")
      case True
      then have "x # rops = [] @ Unref h # rops \<and> apply_refops [] c = Done c \<and> refMap c h = Some 1"
        using Unref by simp
      then show ?thesis by blast
    next
      case False
      have d: "h \<in> dom (refMap c1)" using c1 Cons.prems(1,3) False
        by (auto simp add: unref_free refMap_get_def split: if_splits)
      from Cons.IH[OF m r d Cons.prems(4)] obtain pre post c2 where
        "rops = pre @ Unref h # post" "apply_refops pre c1 = Done c2" "refMap c2 h = Some 1" by blast
      then have "x # rops = (x # pre) @ Unref h # post \<and> apply_refops (x # pre) c = Done c2 \<and> refMap c2 h = Some 1"
        using Unref c1 by (simp add: then_do_def)
      then show ?thesis by blast
    qed
  qed
qed

lemma double_close_minus_one: "\<not> mu c \<Longrightarrow> refMap c h = None \<Longrightarrow>
  \<exists>c'. apply_refops [Ref h, Unref h, Unref h] c = Done c' \<and> refMap c' h = Some (- 1)"
  by (simp add: ref_free unref_free then_do_def refMap_get_def)

text \<open>
  Claim C10 says that eviction skips a digest whenever \<^verbatim>\<open>refMap\<close> has an entry for it,
  whatever the value, and that after a double \<^verbatim>\<open>Close\<close> the entry of value -1 is removed
  by no later operation, so that the file is never evicted again. The first part holds
  and the double \<^verbatim>\<open>Close\<close> does leave -1. But the entry is not permanent: two later
  calls of \<^verbatim>\<open>ref\<close> bring the value to 1 and the next \<^verbatim>\<open>unref\<close> deletes the entry, after
  which \<^verbatim>\<open>rmCache\<close> removes the file. The example runs \<^verbatim>\<open>Get\<close>'s \<^verbatim>\<open>ref\<close> and two
  \<^verbatim>\<open>unref\<close>, then \<^verbatim>\<open>ref\<close>, \<^verbatim>\<open>ref\<close>, \<^verbatim>\<open>unref\<close>, then \<^verbatim>\<open>rmCache\<close>.
\<close>

theorem double_close_entry_removed_later:
  "(case apply_refops [Ref ex_hash, Unref ex_hash, Unref ex_hash]
           (ex_cache\<lparr>numFiles := 1, totalSize := 100\<rparr>) of
      Done c1 \<Rightarrow> refMap c1 ex_hash = Some (- 1) \<and>
        (case apply_refops [Ref ex_hash, Ref ex_hash, Unref ex_hash] c1 of
           Done c2 \<Rightarrow> refMap c2 ex_hash = None \<and>
             (case rmCache ex_hash ex_path 1000 (Inr ex_fi) None c2 of
                Done (e, c3) \<Rightarrow>
                  e = None \<and> numRemoved c3 = 1 \<and> numFiles c3 = 0 \<and>
                  last (trace c3) = (IoRemove ex_path, False)
              | _ \<Rightarrow> False)
         | _ \<Rightarrow> False)
    | _ \<Rightarrow> False)"
  by (simp add: ex_defs run_defs ref_def unref_def refMap_get_def Let_def)

text \<open>
  Claim C10 as amended: \<^verbatim>\<open>rmCache\<close> skips a digest (returns \<^verbatim>\<open>nil\<close> and leaves the cache
  as it was) whenever \<^verbatim>\<open>refMap\<close> has an entry for it, whatever the value; a \<^verbatim>\<open>ref\<close>
  followed by two \<^verbatim>\<open>unref\<close> on a digest without entry leaves the entry -1; and in every
  run of \<^verbatim>\<open>ref\<close> and \<^verbatim>\<open>unref\<close> calls an entry that is present at the start and absent
  at the end has been deleted by an \<^verbatim>\<open>unref\<close> of that digest that found the value 1.
  The mutex is free at the start.
\<close>

theorem refMap_entry_pins_until_unref_at_one:
  assumes "\<not> mu c"
  shows "(h \<in> dom (refMap c) \<longrightarrow> rmCache h p lastMod stat_ans remove_ans c = Done (None, c)) \<and>
         (refMap c h = None \<longrightarrow>
            (\<exists>c'. apply_refops [Ref h, Unref h, Unref h] c = Done c' \<and> refMap c' h = Some (- 1))) \<and>
         (\<forall>rops c'. apply_refops rops c = Done c' \<and> h \<in> dom (refMap c) \<and> h \<notin> dom (refMap c') \<longrightarrow>
            (\<exists>pre post c1. rops = pre @ Unref h # post \<and> apply_refops pre c = Done c1 \<and>
                            refMap c1 h = Some 1))"
  using assms rmCache_refed double_close_minus_one entry_removed_only_at_one by blast

theorem refMap_entry_pins_until_unref_at_one_witness:
  "rmCache ex_hash ex_path 1000 (Inr ex_fi) None (ex_cache\<lparr>refMap := [ex_hash \<mapsto> - 1]\<rparr>)
     = Done (None, ex_cache\<lparr>refMap := [ex_hash \<mapsto> - 1]\<rparr>) \<and>
   (\<exists>c'. apply_refops [Ref ex_hash, Unref ex_hash, Unref ex_hash] ex_cache = Done c' \<and>
         refMap c' ex_hash = Some (- 1)) \<and>
   (\<exists>pre post c1. [Ref ex_hash, Ref ex_hash, Unref ex_hash] = pre @ Unref ex_hash # post \<and>
         apply_refops pre (ex_cache\<lparr>refMap := [ex_hash \<mapsto> - 1]\<rparr>) = Done c1 \<and>
         refMap c1 ex_hash = Some 1)"
proof -
  let ?c = "ex_cache\<lparr>refMap := [ex_hash \<mapsto> - 1]\<rparr>"
  have m0: "\<not> mu ex_cache" by (simp add: ex_cache_def init_cache_def)
  have m1: "\<not> mu ?c" by (simp add: ex_cache_def init_cache_def)
  have d1: "ex_hash \<in> dom (refMap ?c)" by simp
  have n0: "refMap ex_cache ex_hash = None" by (simp add: ex_cache_def init_cache_def)
  have run: "apply_refops [Ref ex_hash, Ref ex_hash, Unref ex_hash] ?c
               = Done (?c\<lparr>refMap := Map.empty\<rparr>)"
    using m1 by (simp add: ref_free unref_free then_do_def refMap_get_def)
  have gone: "ex_hash \<notin> dom (refMap (?c\<lparr>refMap := Map.empty\<rparr>))" by simp
  from refMap_entry_pins_until_unref_at_one [OF m1, of ex_hash ex_path 1000 "Inr ex_fi" None] d1
  have a: "rmCache ex_hash ex_path 1000 (Inr ex_fi) None ?c = Done (None, ?c)" by blast
  from refMap_entry_pins_until_unref_at_one [OF m0, of ex_hash ex_path 1000 "Inr ex_fi" None] n0
  have b: "\<exists>c'. apply_refops [Ref ex_hash, Unref ex_hash, Unref ex_hash] ex_cache = Done c' \<and>
         refMap c' ex_hash = Some (- 1)" by blast
  from refMap_entry_pins_until_unref_at_one [OF m1, of ex_hash ex_path 1000 "Inr ex_fi" None]
    run d1 gone
  have c: "\<exists>pre post c1. [Ref ex_hash, Ref ex_hash, Unref ex_hash] = pre @ Unref ex_hash # post \<and>
         apply_refops pre ?c = Done c1 \<and> refMap c1 ex_hash = Some 1" by blast
  from a b c show ?thesis by blast
qed

subsection \<open>The removal case of \<^verbatim>\<open>Get\<close>\<close>


lemma unlock_req_id:
  "\<not> mu c \<Longrightarrow> Unlock (c\<lparr>mu := True, numRequested := n\<rparr>) = c\<lparr>numRequested := n\<rparr>"
  by (cases c) (simp add: Unlock_def)

lemma Get_loop_first_removing:
  assumes "\<not> mu c" "opMap c h = Some a" "ops c a = Some e" "opType e \<noteq> 0"
  shows "Get_loop h answers False ws c =
           (case await a ws (c\<lparr>numRequested := numRequested c + 1\<rparr>) of
              Done (c3, ws') \<Rightarrow> Get_loop h answers True ws' c3
            | Blocked \<Rightarrow> Blocked
            | Panic \<Rightarrow> Panic)"
  using assms
  by (subst Get_loop.simps) (simp add: Lock_def unlock_req_id Let_def split: outcome.splits)


lemma after_worlds_simps [simp]:
  "after_worlds [] c = c" "after_worlds (w # ws) c = after_worlds ws (w c)"
  by (simp_all add: after_worlds_def)





















subsection \<open>The mutex and I/O\<close>

lemma hc_upd [simp]:
  "held_calls (c\<lparr>mu := b\<rparr>) = held_calls c"
  "held_calls (c\<lparr>numFiles := w\<rparr>) = held_calls c"
  "held_calls (c\<lparr>totalSize := w\<rparr>) = held_calls c"
  "held_calls (c\<lparr>numRequested := w\<rparr>) = held_calls c"
  "held_calls (c\<lparr>numHit := w\<rparr>) = held_calls c"
  "held_calls (c\<lparr>numCreated := w\<rparr>) = held_calls c"
  "held_calls (c\<lparr>numFailed := w\<rparr>) = held_calls c"
  "held_calls (c\<lparr>numRemoved := w\<rparr>) = held_calls c"
  "held_calls (c\<lparr>opMap := m\<rparr>) = held_calls c"
  "held_calls (c\<lparr>ops := os\<rparr>) = held_calls c"
  "held_calls (c\<lparr>ops_next := n\<rparr>) = held_calls c"
  "held_calls (c\<lparr>refMap := rm\<rparr>) = held_calls c"
  by (simp_all add: held_calls_def)

lemma hc_io_free: "\<not> mu c \<Longrightarrow> held_calls (io call c) = held_calls c"
  by (simp add: held_calls_def io_def)

lemma hc_io_held: "mu c \<Longrightarrow> held_calls (io call c) = held_calls c @ [call]"
  by (simp add: held_calls_def io_def)

lemma frame_io [simp]:
  "mu (io call c) = mu c" "dir (io call c) = dir c" "opMap (io call c) = opMap c"
  "maxAge (io call c) = maxAge c"
  by (simp_all add: io_def)

lemma frame_set_err [simp]:
  "held_calls (set_err a e c) = held_calls c" "mu (set_err a e c) = mu c" "dir (set_err a e c) = dir c"
  by (simp_all add: held_calls_def set_err_def)

lemma frame_close_done [simp]:
  "held_calls (close_done a c) = held_calls c" "mu (close_done a c) = mu c" "dir (close_done a c) = dir c"
  by (simp_all add: held_calls_def close_done_def)

lemma frame_new_op [simp]:
  "held_calls (new_op t c) = held_calls c" "mu (new_op t c) = mu c" "dir (new_op t c) = dir c"
  by (simp_all add: held_calls_def new_op_def)

lemma foldl_io_free:
  "\<not> mu c \<Longrightarrow> \<not> mu (foldl (\<lambda>c p. io (IoRemove p) c) c ps) \<and>
     dir (foldl (\<lambda>c p. io (IoRemove p) c) c ps) = dir c \<and>
     held_calls (foldl (\<lambda>c p. io (IoRemove p) c) c ps) = held_calls c"
  by (induction ps arbitrary: c) (simp_all add: hc_io_free)

lemma Get_fail_held:
  assumes "\<not> mu c" "Get_fail h a e ps c = Done (x, c')"
  shows "\<not> mu c' \<and> dir c' = dir c \<and> held_calls c' = held_calls c"
proof -
  let ?c2 = "foldl (\<lambda>c p. io (IoRemove p) c) (set_err a e c) ps"
  from assms(1) have "\<not> mu (set_err a e c)" by simp
  from foldl_io_free[OF this, of ps]
  have f: "\<not> mu ?c2" "held_calls ?c2 = held_calls c" "dir ?c2 = dir c"
    by simp_all
  from assms(2) f(1) have "c' = close_done a (Unlock (?c2\<lparr>mu := True, opMap := (opMap ?c2)(h := None),
                                           numFailed := numFailed ?c2 + 1\<rparr>))"
    by (simp add: Get_fail_def Let_def Lock_def)
  then show ?thesis using f(2,3) by (simp add: Unlock_def)
qed

lemma Get_build_held:
  assumes "\<not> mu c" "Get_build h answers a c = Done (x, c')"
  shows "\<not> mu c' \<and> dir c' = dir c \<and> held_calls c' = held_calls c"
  using assms
  by (auto simp add: Get_build_def Let_def Lock_def Unlock_def hc_io_free
        split: option.splits sum.splits if_splits
        dest!: Get_fail_held[rotated])

lemma await_quiet:
  "\<forall>w\<in>set ws. quiet w \<Longrightarrow> await a ws c = Done (c3, ws') \<Longrightarrow>
     mu c3 = mu c \<and> held_calls c3 = held_calls c \<and> dir c3 = dir c \<and> set ws' \<subseteq> set ws"
proof (induction ws arbitrary: c)
  case Nil
  then show ?case by simp
next
  case (Cons w ws)
  from Cons.prems(1) have q: "mu (w c) = mu c" "held_calls (w c) = held_calls c" "dir (w c) = dir c"
    by (simp_all add: quiet_def held_calls_def)
  show ?case
  proof (cases "\<exists>e. ops (w c) a = Some e \<and> done_ch e")
    case True
    with Cons.prems have "c3 = w c" "ws' = ws" by auto
    with q show ?thesis by auto
  next
    case False
    with Cons.prems have "await a ws (w c) = Done (c3, ws')"
      by (auto split: option.splits if_splits)
    from Cons.IH[OF _ this] Cons.prems(1) q show ?thesis by auto
  qed
qed

lemma filePath_dir: "dir c1 = dir c2 \<Longrightarrow> filePath c1 h = filePath c2 h"
  by (simp add: filePath_def)

lemma filePath_upd [simp]:
  "filePath (c\<lparr>mu := b\<rparr>) h = filePath c h"
  "filePath (c\<lparr>numRequested := n\<rparr>) h = filePath c h"
  by (simp_all add: filePath_def)

lemma Get_loop_retry_held:
  assumes q: "\<forall>w\<in>set ws. quiet w" and nm: "\<not> mu c"
    and res: "Get_loop h answers True ws c = Done (x, c')"
  shows "\<not> mu c' \<and> dir c' = dir c \<and>
         set (held_calls c') \<subseteq> set (held_calls c) \<union> {IoStat (snd (filePath c h)), IoChtimes (snd (filePath c h))}"
proof (cases "opMap c h")
  case None
  with res nm show ?thesis
    by (subst (asm) Get_loop.simps)
       (auto simp add: Lock_def Unlock_def Let_def hc_io_held hc_io_free
             split: sum.splits if_splits dest!: Get_build_held[rotated] )
next
  case (Some a)
  with res nm show ?thesis
    by (subst (asm) Get_loop.simps)
       (auto simp add: Lock_def Unlock_def Let_def
             split: sum.splits if_splits option.splits outcome.splits
             dest!: await_quiet[OF q])
qed


lemma Get_loop_held:
  assumes q: "\<forall>w\<in>set ws. quiet w" and nm: "\<not> mu c"
    and res: "Get_loop h answers False ws c = Done (x, c')"
  shows "\<not> mu c' \<and> dir c' = dir c \<and>
         set (held_calls c') \<subseteq> set (held_calls c) \<union> {IoStat (snd (filePath c h)), IoChtimes (snd (filePath c h))}"
proof (cases "opMap c h")
  case None
  with res nm show ?thesis
    by (subst (asm) Get_loop.simps)
       (auto simp add: Lock_def Unlock_def Let_def hc_io_held hc_io_free
             split: sum.splits if_splits dest!: Get_build_held[rotated] )
next
  case (Some a)
  show ?thesis
  proof (cases "ops c a")
    case None
    with res nm Some show ?thesis
      by (subst (asm) Get_loop.simps) (auto simp add: Lock_def Let_def)
  next
    case (Some e)
    note oe = this
    show ?thesis
    proof (cases "opType e = 0")
      case True
      with res nm oe \<open>opMap c h = Some a\<close> show ?thesis
        by (subst (asm) Get_loop.simps)
           (auto simp add: Lock_def Unlock_def Let_def
                 split: option.splits outcome.splits
                 dest!: await_quiet[OF q])
    next
      case False
      from res Get_loop_first_removing[OF nm \<open>opMap c h = Some a\<close> oe False, of answers ws]
      obtain c3 ws' where
        aw: "await a ws (c\<lparr>numRequested := numRequested c + 1\<rparr>) = Done (c3, ws')"
        and r2: "Get_loop h answers True ws' c3 = Done (x, c')"
        by (auto split: outcome.splits)
      from await_quiet[OF q aw] nm
      have f: "\<not> mu c3" "held_calls c3 = held_calls c" "dir c3 = dir c" "set ws' \<subseteq> set ws"
        by simp_all
      from q f(4) have q': "\<forall>w\<in>set ws'. quiet w" by blast
      from Get_loop_retry_held[OF q' f(1) r2] f(2,3) filePath_dir[OF f(3), of h]
      show ?thesis by simp
    qed
  qed
qed

lemma ref_held: "\<not> mu c \<Longrightarrow> ref h c = Done c' \<Longrightarrow> \<not> mu c' \<and> held_calls c' = held_calls c"
  by (auto simp add: ref_def Lock_def Unlock_def then_do_def Let_def)

lemma Get_held:
  assumes q: "\<forall>w\<in>set ws. quiet w" and nm: "\<not> mu c"
    and res: "Get h answers ws c = Done (r, c')"
  shows "\<not> mu c' \<and>
         set (held_calls c') \<subseteq> set (held_calls c) \<union> {IoStat (snd (filePath c h)), IoChtimes (snd (filePath c h))}"
proof -
  from res obtain x c1 where l: "Get_loop h answers False ws c = Done (x, c1)"
    by (auto simp add: Get_def Let_def split: outcome.splits)
  from Get_loop_held[OF q nm l]
  have f: "\<not> mu c1" "set (held_calls c1) \<subseteq> set (held_calls c) \<union> {IoStat (snd (filePath c h)), IoChtimes (snd (filePath c h))}"
    by simp_all
  from res l f(1) have "\<not> mu c' \<and> held_calls c' = held_calls c1"
    by (auto simp add: Get_def Let_def hc_io_free
             split: loop_exit.splits option.splits sum.splits outcome.splits
             dest!: ref_held[rotated])
  with f(2) show ?thesis by simp
qed

lemma rmCache_held:
  assumes nm: "\<not> mu c" and res: "rmCache h p lastMod stat_ans remove_ans c = Done (e, c')"
  shows "set (held_calls c') \<subseteq> set (held_calls c) \<union> {IoStat p}"
  using assms
  by (auto simp add: rmCache_def Lock_def Unlock_def then_do_def Let_def hc_io_held hc_io_free
           split: if_splits sum.splits option.splits)

text \<open>
  Claim C4 says that the mutex is never held during file-system I/O by \<^verbatim>\<open>Get\<close> or the
  collector. It is: on a hit \<^verbatim>\<open>Get\<close> calls \<^verbatim>\<open>os.Stat(path)\<close> and \<^verbatim>\<open>os.Chtimes\<close>
  between \<^verbatim>\<open>Lock\<close> and \<^verbatim>\<open>Unlock\<close>, and \<^verbatim>\<open>rmCache\<close> calls \<^verbatim>\<open>os.Stat(path)\<close> under
  the mutex. The example shows the calls of a hit and of a removal with the state of the
  mutex at each.
\<close>

theorem stat_and_chtimes_under_mutex:
  "(case Get ex_hash (ex_get_io\<lparr>stat_path := Inr ex_fi\<rparr>) [] (ex_cache\<lparr>numFiles := 1, totalSize := 100\<rparr>) of
      Done (r, c) \<Rightarrow>
        trace c = [(IoStat ex_path, True), (IoChtimes ex_path, True),
                   (IoOpen ex_path, False), (IoFileStat ex_path, False)]
    | _ \<Rightarrow> False) \<and>
   (case rmCache ex_hash ex_path 1000 (Inr ex_fi) None (ex_cache\<lparr>numFiles := 1, totalSize := 100\<rparr>) of
      Done (e, c) \<Rightarrow> trace c = [(IoStat ex_path, True), (IoRemove ex_path, False)]
    | _ \<Rightarrow> False)"
  by code_simp


lemma gc_walker_held:
  assumes nm: "\<not> mu c" and res: "gc_walker E maxCands v isDir werr (tree, c) = Done (r, tree', c')"
  shows "set (held_calls c') \<subseteq> set (held_calls c) \<union> {IoStat (v_path v)}"
proof (cases "\<exists>fh fi. \<not> werr \<and> \<not> isDir \<and> length (v_name v) = HashSize * 2 \<and>
                hex_DecodeString (v_name v) = Some fh \<and> v_info v = Inr fi \<and>
                maxAge c < time_Since (v_now v) (ModTime fi)")
  case True
  then obtain fh fi where t: "\<not> werr" "\<not> isDir" "length (v_name v) = HashSize * 2"
      "hex_DecodeString (v_name v) = Some fh" "v_info v = Inr fi"
      "maxAge c < time_Since (v_now v) (ModTime fi)" by blast
  let ?c1 = "io (IoInfo (v_path v)) c"
  from res t obtain e where
    rm: "rmCache fh (v_path v) (ModTime fi) (stat_of E (v_path v)) (remove_of E (v_path v)) ?c1 = Done (e, c')"
    by (auto simp add: gc_walker_def Let_def io_def split: outcome.splits)
  have "\<not> mu ?c1" using nm by simp
  from rmCache_held[OF this rm] nm show ?thesis by (simp add: hc_io_free)
next
  case False
  with res nm have "held_calls c' = held_calls c"
    by (auto simp add: gc_walker_def Let_def hc_io_free
             split: if_splits option.splits sum.splits outcome.splits)
  then show ?thesis by auto
qed

text \<open>
  Claim C4 as amended: \<^verbatim>\<open>os.Stat\<close> of the entry's path (in \<^verbatim>\<open>Get\<close> and in \<^verbatim>\<open>rmCache\<close>)
  and the \<^verbatim>\<open>os.Chtimes\<close> of a hit are made with the mutex held, and no other call is:
  started with the mutex free, \<^verbatim>\<open>Get\<close> returns with the mutex free and adds to the
  calls made under the mutex at most these two; \<^verbatim>\<open>rmCache\<close> adds at most its
  \<^verbatim>\<open>os.Stat\<close>; and the walker of the collector, with \<^verbatim>\<open>d.Info()\<close> and the call of
  \<^verbatim>\<open>rmCache\<close> for an expired entry, adds at most that \<^verbatim>\<open>os.Stat\<close>. So mkdir, open,
  the builder, the stat of the temporary file, rename, unlink and the reader's open and
  stat are made with the mutex released.
\<close>

theorem mutex_held_only_during_stat_and_chtimes:
  assumes "\<not> mu c" and "\<forall>w\<in>set ws. quiet w"
  shows "(\<forall>r c'. Get h answers ws c = Done (r, c') \<longrightarrow>
            \<not> mu c' \<and>
            set (held_calls c') \<subseteq> set (held_calls c) \<union>
               {IoStat (snd (filePath c h)), IoChtimes (snd (filePath c h))}) \<and>
         (\<forall>e c'. rmCache h p lastMod stat_ans remove_ans c = Done (e, c') \<longrightarrow>
            set (held_calls c') \<subseteq> set (held_calls c) \<union> {IoStat p}) \<and>
         (\<forall>r tree tree' c'. gc_walker E maxCands v isDir werr (tree, c) = Done (r, tree', c') \<longrightarrow>
            set (held_calls c') \<subseteq> set (held_calls c) \<union> {IoStat (v_path v)})"
proof (intro conjI allI impI)
  fix r c'
  assume g: "Get h answers ws c = Done (r, c')"
  from Get_held[OF assms(2,1) g] show "\<not> mu c'" by simp
  from Get_held[OF assms(2,1) g]
  show "set (held_calls c') \<subseteq> set (held_calls c) \<union>
               {IoStat (snd (filePath c h)), IoChtimes (snd (filePath c h))}" by simp
next
  fix e c'
  assume "rmCache h p lastMod stat_ans remove_ans c = Done (e, c')"
  from rmCache_held[OF assms(1) this]
  show "set (held_calls c') \<subseteq> set (held_calls c) \<union> {IoStat p}" .
next
  fix r tree tree' c'
  assume "gc_walker E maxCands v isDir werr (tree, c) = Done (r, tree', c')"
  from gc_walker_held[OF assms(1) this]
  show "set (held_calls c') \<subseteq> set (held_calls c) \<union> {IoStat (v_path v)}" .
qed

theorem mutex_held_only_during_stat_and_chtimes_witness:
  "(case Get ex_hash ex_get_io [ex_world_removed] ex_removing_cache of
      Done (r, c') \<Rightarrow> \<not> mu c' \<and> set (held_calls c') \<subseteq> {IoStat ex_path, IoChtimes ex_path}
    | _ \<Rightarrow> False) \<and>
   (case rmCache ex_hash ex_path 1000 (Inr ex_fi) None ex_cache of
      Done (e, c') \<Rightarrow> set (held_calls c') \<subseteq> {IoStat ex_path}
    | _ \<Rightarrow> False)"
proof -
  have m: "\<not> mu ex_removing_cache" by (simp add: ex_removing_cache_def ex_cache_def init_cache_def)
  have m0: "\<not> mu ex_cache" by (simp add: ex_cache_def init_cache_def)
  have q: "\<forall>w\<in>set [ex_world_removed]. quiet w" by (simp add: quiet_def ex_world_removed_def)
  have q0: "\<forall>w\<in>set ([] :: (cache \<Rightarrow> cache) list). quiet w" by simp
  have h0: "held_calls ex_removing_cache = []" "held_calls ex_cache = []"
    by (simp_all add: held_calls_def ex_removing_cache_def ex_cache_def init_cache_def)
  have p: "snd (filePath ex_removing_cache ex_hash) = ex_path"
    using ex_path_filePath by (simp add: filePath_def ex_removing_cache_def)
  have d1: "(case Get ex_hash ex_get_io [ex_world_removed] ex_removing_cache of
              Done x \<Rightarrow> True | _ \<Rightarrow> False)" by code_simp
  have d2: "(case rmCache ex_hash ex_path 1000 (Inr ex_fi) None ex_cache of
              Done x \<Rightarrow> True | _ \<Rightarrow> False)" by code_simp
  from d1 obtain r c' where g: "Get ex_hash ex_get_io [ex_world_removed] ex_removing_cache = Done (r, c')"
    by (auto split: outcome.splits)
  from d2 obtain e c2 where r: "rmCache ex_hash ex_path 1000 (Inr ex_fi) None ex_cache = Done (e, c2)"
    by (auto split: outcome.splits)
  from mutex_held_only_during_stat_and_chtimes [OF m q, THEN conjunct1, rule_format, OF g] h0 p
  have a: "\<not> mu c' \<and> set (held_calls c') \<subseteq> {IoStat ex_path, IoChtimes ex_path}" by auto
  from mutex_held_only_during_stat_and_chtimes [OF m0 q0, THEN conjunct2, THEN conjunct1,
       rule_format, OF r] h0
  have b: "set (held_calls c2) \<subseteq> {IoStat ex_path}" by auto
  from a b g r show ?thesis by simp
qed

subsection \<open>The candidate selector\<close>

lemma ins_mset: "mset (tree_InsertNoReplace x t) = add_mset x (mset t)"
  by (induction t) simp_all

lemma ins_length: "length (tree_InsertNoReplace x t) = Suc (length t)"
  by (induction t) simp_all

lemma ins_set: "set (tree_InsertNoReplace x t) = insert x (set t)"
  by (induction t) auto

lemma ins_sorted:
  "sorted (map cand_lastMod t) \<Longrightarrow> sorted (map cand_lastMod (tree_InsertNoReplace x t))"
  by (induction t) (auto simp add: Less_def ins_set)

lemma ins_filter:
  "sorted (map cand_lastMod t) \<Longrightarrow>
   filter (\<lambda>y. k = cand_lastMod y) (tree_InsertNoReplace x t) =
     filter (\<lambda>y. k = cand_lastMod y) t @ (if k = cand_lastMod x then [x] else [])"
proof (induction t)
  case Nil
  then show ?case by simp
next
  case (Cons y ys)
  show ?case
  proof (cases "Less x y")
    case True
    then have "\<forall>z\<in>set (y # ys). cand_lastMod x < cand_lastMod z"
      using Cons.prems by (auto simp add: Less_def)
    then have "k = cand_lastMod x \<Longrightarrow> filter (\<lambda>y. k = cand_lastMod y) (y # ys) = []"
      by (auto simp add: filter_empty_conv)
    with True show ?thesis by auto
  next
    case False
    from Cons.prems have "sorted (map cand_lastMod ys)" by simp
    from Cons.IH[OF this] False show ?thesis by auto
  qed
qed

lemma ins_take: "take n (tree_InsertNoReplace x (take n t)) = take n (tree_InsertNoReplace x t)"
proof (induction t arbitrary: n)
  case Nil
  then show ?case by simp
next
  case (Cons y ys)
  show ?case
  proof (cases n)
    case 0
    then show ?thesis by simp
  next
    case (Suc m)
    with Cons[of m] show ?thesis by (cases m) auto
  qed
qed

lemma bounded_insert_take:
  "length t \<le> n \<Longrightarrow> bounded_insert n x t = take n (tree_InsertNoReplace x t)"
proof (cases "n = length t")
  case True
  then show ?thesis
    by (simp add: bounded_insert_def Let_def tree_Len_def tree_DeleteMax_def ins_length butlast_conv_take)
next
  case False
  assume "length t \<le> n"
  with False have "length t < n" by simp
  then show ?thesis
    by (simp add: bounded_insert_def Let_def tree_Len_def tree_DeleteMax_def ins_length)
qed

lemma fold_ins:
  "sorted (map cand_lastMod (foldl (\<lambda>t x. tree_InsertNoReplace x t) [] xs)) \<and>
   mset (foldl (\<lambda>t x. tree_InsertNoReplace x t) [] xs) = mset xs \<and>
   (\<forall>k. filter (\<lambda>y. k = cand_lastMod y) (foldl (\<lambda>t x. tree_InsertNoReplace x t) [] xs)
          = filter (\<lambda>y. k = cand_lastMod y) xs)"
  by (induction xs rule: rev_induct) (simp_all add: ins_sorted ins_mset ins_filter)

lemma fold_ins_sort: "foldl (\<lambda>t x. tree_InsertNoReplace x t) [] xs = sort_key cand_lastMod xs"
  using fold_ins[of xs] by (intro properties_for_sort_key[symmetric]) auto

lemma fold_bounded_insert:
  "foldl (\<lambda>t x. bounded_insert n x t) [] xs = oldest_first n xs"
proof (induction xs rule: rev_induct)
  case Nil
  then show ?case by (simp add: oldest_first_def)
next
  case (snoc x xs)
  have "foldl (\<lambda>t x. bounded_insert n x t) [] (xs @ [x])
          = bounded_insert n x (take n (sort_key cand_lastMod xs))"
    using snoc by (simp add: oldest_first_def)
  also have "\<dots> = take n (tree_InsertNoReplace x (take n (sort_key cand_lastMod xs)))"
    by (rule bounded_insert_take) simp
  also have "\<dots> = take n (tree_InsertNoReplace x (sort_key cand_lastMod xs))"
    by (rule ins_take)
  also have "\<dots> = take n (sort_key cand_lastMod (xs @ [x]))"
    by (simp add: fold_ins_sort[symmetric])
  finally show ?case by (simp add: oldest_first_def)
qed

lemma rmCache_maxAge: "rmCache h p lm sa ra c = Done (e, c') \<Longrightarrow> maxAge c' = maxAge c"
  by (auto simp add: rmCache_def Lock_def Unlock_def then_do_def Let_def io_def new_op_def close_done_def
           split: if_splits sum.splits option.splits)

lemma gc_walker_file:
  assumes "maxAge c \<noteq> 0" "gc_walker E mc v False False (t, c) = Done (r, t', c')"
  shows "r = WNil \<and> maxAge c' = maxAge c \<and> t' = gc_step (maxAge c) (unat mc) t v"
  using assms
  by (auto simp add: gc_walker_def gc_step_def scanned_candidate_def bounded_insert_def Let_def io_def
           split: if_splits option.splits sum.splits outcome.splits dest!: rmCache_maxAge)

lemma gc_walker_dir: "gc_walker E mc v True False s = Done (WNil, s)"
  by (cases s) (simp add: gc_walker_def)

lemma gc_walker_err: "gc_walker E mc v isDir True s = Done (WSkipDir, s)"
  by (cases s) (simp add: gc_walker_def)

lemma walkList_fold:
  assumes kids: "\<And>k t c r t' c'. k \<in> set ns \<Longrightarrow> maxAge c \<noteq> 0 \<Longrightarrow>
            walkDir (gc_walker E mc) k (t, c) = Done (r, t', c') \<Longrightarrow>
            r = WNil \<and> maxAge c' = maxAge c \<and> t' = foldl (gc_step (maxAge c) (unat mc)) t (files_of k)"
    and nz: "maxAge c \<noteq> 0"
    and res: "walkList (gc_walker E mc) ns (t, c) = Done (r, t', c')"
  shows "r = WNil \<and> maxAge c' = maxAge c \<and>
         t' = foldl (gc_step (maxAge c) (unat mc)) t (concat (map files_of ns))"
  using assms
proof (induction ns arbitrary: t c)
  case Nil
  then show ?case by simp
next
  case (Cons k ks)
  from Cons.prems(3) obtain r1 t1 c1 where
    w: "walkDir (gc_walker E mc) k (t, c) = Done (r1, t1, c1)"
    by (auto split: outcome.splits)
  from Cons.prems(1)[OF _ Cons.prems(2) w] have k: "r1 = WNil" "maxAge c1 = maxAge c"
    "t1 = foldl (gc_step (maxAge c) (unat mc)) t (files_of k)" by simp_all
  from Cons.prems(3) w k(1) have rest: "walkList (gc_walker E mc) ks (t1, c1) = Done (r, t', c')"
    by simp
  from k(2) Cons.prems(2) have nz1: "maxAge c1 \<noteq> 0" by simp
  have "r = WNil \<and> maxAge c' = maxAge c1 \<and>
         t' = foldl (gc_step (maxAge c1) (unat mc)) t1 (concat (map files_of ks))"
    by (rule Cons.IH[OF _ nz1 rest]) (rule Cons.prems(1), simp_all)
  with k show ?case by simp
qed

lemma walkDir_fold:
  "maxAge c \<noteq> 0 \<Longrightarrow> walkDir (gc_walker E mc) n (t, c) = Done (r, t', c') \<Longrightarrow>
   r = WNil \<and> maxAge c' = maxAge c \<and> t' = foldl (gc_step (maxAge c) (unat mc)) t (files_of n)"
proof (induction n arbitrary: t c r t' c')
  case (FileNode v)
  then show ?case using gc_walker_file[of c E mc v t r t' c'] by simp
next
  case (DirNode v rd kids)
  show ?case
  proof (cases rd)
    case True
    with DirNode.prems show ?thesis by (simp add: gc_walker_dir gc_walker_err)
  next
    case False
    with DirNode.prems have "walkList (gc_walker E mc) kids (t, c) = Done (r, t', c')"
      by (simp add: gc_walker_dir)
    from walkList_fold[OF _ DirNode.prems(1) this] DirNode.IH False show ?thesis by simp
  qed
qed

lemma foldl_gc_step:
  "foldl (gc_step ma n) t vs = foldl (\<lambda>t x. bounded_insert n x t) t (List.map_filter (scanned_candidate ma) vs)"
  by (induction vs arbitrary: t) (simp_all add: gc_step_def List.map_filter_simps split: option.splits)

lemma WalkDir_selects:
  assumes nz: "maxAge c \<noteq> 0"
    and "WalkDir (gc_walker E mc) root ([], c) = Done (r, tree, c')"
  shows "tree = oldest_first (unat mc) (List.map_filter (scanned_candidate (maxAge c)) (files_of_root root))"
proof (cases root)
  case (LstatFails v)
  with assms show ?thesis
    by (simp add: WalkDir_def gc_walker_err files_of_root_def oldest_first_def List.map_filter_simps)
next
  case (Root n)
  with assms obtain r1 where "walkDir (gc_walker E mc) n ([], c) = Done (r1, tree, c')"
    by (auto simp add: WalkDir_def split: outcome.splits)
  from walkDir_fold[OF nz this] Root show ?thesis
    by (simp add: files_of_root_def foldl_gc_step fold_bounded_insert)
qed

lemma sorted_butlast_le_last:
  "sorted (map cand_lastMod xs) \<Longrightarrow> y \<in> set (butlast xs) \<Longrightarrow> cand_lastMod y \<le> cand_lastMod (last xs)"
proof -
  assume s: "sorted (map cand_lastMod xs)" and y: "y \<in> set (butlast xs)"
  then have ne: "xs \<noteq> []" by auto
  from y have "y \<in> set xs" by (rule in_set_butlastD)
  then obtain i where i: "i < length xs" "xs ! i = y" by (auto simp add: in_set_conv_nth)
  from s i ne have "map cand_lastMod xs ! i \<le> map cand_lastMod xs ! (length xs - 1)"
    by (intro sorted_nth_mono) auto
  with i ne show ?thesis by (simp add: last_conv_nth)
qed

lemma gc_walker_len:
  assumes "tree_Len t \<le> unat mc" "gc_walker E mc v isDir werr (t, cc) = Done (r, t', c')"
  shows "tree_Len t' \<le> unat mc"
  using assms
  by (auto simp add: gc_walker_def Let_def tree_Len_def tree_DeleteMax_def ins_length
           split: if_splits option.splits sum.splits outcome.splits)

text \<open>
  The selector when \<^verbatim>\<open>maxAge\<close> is not zero, for the scan of one cycle with capacity
  \<open>maxCands\<close>, when the scan completes. The tree after the scan is the list of the at
  most \<open>maxCands\<close> scanned, non-expired entries with the oldest modification times,
  oldest first. Every call of the walker that starts with at most \<open>maxCands\<close> items in
  the tree leaves at most \<open>maxCands\<close> (whatever \<^verbatim>\<open>maxAge\<close> is), so the bound holds
  after each entry of the scan. And when the walker inserts a candidate into a full tree,
  the item dropped is the last of the tree after the insertion, whose modification time
  is not less than that of any item kept.
\<close>

lemma selector_keeps_oldest_when_maxAge_set:
  "(\<forall>r tree c'. maxAge c \<noteq> 0 \<and>
      WalkDir (gc_walker E maxCands) root ([], c) = Done (r, tree, c') \<longrightarrow>
      tree = oldest_first (unat maxCands)
               (List.map_filter (scanned_candidate (maxAge c)) (files_of_root root)) \<and>
      tree_Len tree \<le> unat maxCands) \<and>
   (\<forall>v isDir werr t cc r t' c'.
      tree_Len t \<le> unat maxCands \<and> gc_walker E maxCands v isDir werr (t, cc) = Done (r, t', c') \<longrightarrow>
      tree_Len t' \<le> unat maxCands) \<and>
   (\<forall>v t cc r t' c' x.
      maxAge cc \<noteq> 0 \<and> sorted (map cand_lastMod t) \<and> tree_Len t = unat maxCands \<and>
      scanned_candidate (maxAge cc) v = Some x \<and>
      gc_walker E maxCands v False False (t, cc) = Done (r, t', c') \<longrightarrow>
      t' = butlast (tree_InsertNoReplace x t) \<and>
      (\<forall>y\<in>set t'. cand_lastMod y \<le> cand_lastMod (last (tree_InsertNoReplace x t))))"
proof (intro conjI allI impI)
  fix r tree c'
  assume w: "maxAge c \<noteq> 0 \<and> WalkDir (gc_walker E maxCands) root ([], c) = Done (r, tree, c')"
  from WalkDir_selects[OF conjunct1[OF w] conjunct2[OF w]]
  show sel: "tree = oldest_first (unat maxCands)
               (List.map_filter (scanned_candidate (maxAge c)) (files_of_root root))" .
  then show "tree_Len tree \<le> unat maxCands" by (simp add: oldest_first_def tree_Len_def)
next
  fix v isDir werr t cc r t' c'
  assume "tree_Len t \<le> unat maxCands \<and> gc_walker E maxCands v isDir werr (t, cc) = Done (r, t', c')"
  then show "tree_Len t' \<le> unat maxCands" using gc_walker_len by blast
next
  fix v t cc r t' c' x
  assume a: "maxAge cc \<noteq> 0 \<and> sorted (map cand_lastMod t) \<and> tree_Len t = unat maxCands \<and>
      scanned_candidate (maxAge cc) v = Some x \<and>
      gc_walker E maxCands v False False (t, cc) = Done (r, t', c')"
  from a gc_walker_file[of cc E maxCands v t r t' c']
  have "t' = bounded_insert (unat maxCands) x t" by (simp add: gc_step_def)
  with a show t': "t' = butlast (tree_InsertNoReplace x t)"
    by (simp add: bounded_insert_def Let_def tree_Len_def tree_DeleteMax_def ins_length)
  from a have "sorted (map cand_lastMod (tree_InsertNoReplace x t))" by (simp add: ins_sorted)
  with t' show "\<forall>y\<in>set t'. cand_lastMod y \<le> cand_lastMod (last (tree_InsertNoReplace x t))"
    using sorted_butlast_le_last by blast
qed

text \<open>With \<^verbatim>\<open>maxAge\<close> of one hour and capacity 2 over the example directory, the tree
  after the scan holds the entries modified at 1000 and 2000.\<close>

lemma selector_keeps_oldest_example:
  "(case WalkDir (gc_walker (ex_env ex_root3) 2) ex_root3 ([], ex_cache) of
      Done (r, tree, c') \<Rightarrow> map cand_lastMod tree = [1000, 2000]
    | _ \<Rightarrow> False)"
proof -
  have d: "(case WalkDir (gc_walker (ex_env ex_root3) 2) ex_root3 ([], ex_cache) of
              Done x \<Rightarrow> True | _ \<Rightarrow> False)" by code_simp
  then obtain r tree c' where
    w: "WalkDir (gc_walker (ex_env ex_root3) 2) ex_root3 ([], ex_cache) = Done (r, tree, c')"
    by (auto split: outcome.splits)
  have nz: "maxAge ex_cache \<noteq> 0" by code_simp
  have u: "unat (2 :: 64 word) = 2" by simp
  have e: "map cand_lastMod (oldest_first 2
             (List.map_filter (scanned_candidate (maxAge ex_cache)) (files_of_root ex_root3)))
           = [1000, 2000]" by code_simp
  from selector_keeps_oldest_when_maxAge_set [of ex_cache "ex_env ex_root3" 2 ex_root3,
        THEN conjunct1, rule_format, OF conjI[OF nz w]] u e
  have "map cand_lastMod tree = [1000, 2000]" by simp
  with w show ?thesis by simp
qed

text \<open>
  Claim C5 says that after the scan the selector holds the (at most \<open>C\<close>) scanned,
  non-expired entries with the oldest modification times, oldest first. With
  \<^verbatim>\<open>maxAge = 0\<close> no entry is expired (the spec; \<^verbatim>\<open>Config\<close>: "Zero value means
  unlimited"), but the walker tests \<^verbatim>\<open>c.maxAge < age\<close> with no case for zero, as in
  claim C2. In the example the cache has \<^verbatim>\<open>MaxFiles = 2\<close>, \<^verbatim>\<open>MaxAge = 0\<close> and three
  entries, modified at 3000, 1000 and 2000 and scanned at 5000, so the collector is awake
  and its capacity is 64. The retained set of the claim is the three entries, oldest
  first. The walker makes none of them a candidate: it hands each to \<^verbatim>\<open>rmCache\<close>,
  which removes it, and the tree after the scan is empty.
\<close>

theorem selector_empty_when_maxAge_zero:
  "maxAge ex_cache3 = 0 \<and> \<not> gc_waits ex_cache3 False \<and>
   maxCands_loop (numFiles ex_cache3) (maxFiles ex_cache3) 64 = Some 64 \<and>
   map cand_lastMod
     (oldest_first (unat (64 :: 64 word))
        (List.map_filter (scanned_candidate (maxAge ex_cache3)) (files_of_root ex_root3)))
     = [1000, 2000, 3000] \<and>
   (case WalkDir (gc_walker ex_env3 64) ex_root3 ([], ex_cache3) of
      Done (r, tree, c') \<Rightarrow> r = WNil \<and> tree = [] \<and> numRemoved c' = 3 \<and> numFiles c' = 0
    | _ \<Rightarrow> False)"
  by code_simp

subsection \<open>Builds of \<^verbatim>\<open>Get\<close> goroutines on their own\<close>

lemma set_pc_simps [simp]:
  "reg (set_pc i pc w) = reg w"
  "length (gets (set_pc i pc w)) = length (gets w)"
  "j \<noteq> i \<Longrightarrow> gets (set_pc i pc w) ! j = gets w ! j"
  "i < length (gets w) \<Longrightarrow> g_pc (gets (set_pc i pc w) ! i) = pc"
  "i < length (gets w) \<Longrightarrow> g_hash (gets (set_pc i pc w) ! i) = g_hash (gets w ! i)"
  by (simp_all add: set_pc_def)

lemma gets_upd [simp]:
  "gets (w\<lparr>reg := r\<rparr>) = gets w" "gets (w\<lparr>files := f\<rparr>) = gets w"
  by simp_all

lemma opMap_frames [simp]:
  "opMap (close_done a c) = opMap c" "opMap (set_err a e c) = opMap c" "opMap (new_op t c) = opMap c"
  by (simp_all add: close_done_def set_err_def new_op_def)

lemma fail_build_simps [simp]:
  "opMap (reg (fail_build i a e ps w)) = opMap (reg w)"
  "length (gets (fail_build i a e ps w)) = length (gets w)"
  "j \<noteq> i \<Longrightarrow> gets (fail_build i a e ps w) ! j = gets w ! j"
  "i < length (gets w) \<Longrightarrow> g_pc (gets (fail_build i a e ps w) ! i) = G_Cleanup a e ps"
  "i < length (gets w) \<Longrightarrow> g_hash (gets (fail_build i a e ps w) ! i) = g_hash (gets w ! i)"
  by (simp_all add: fail_build_def)

lemma get_step_effect:
  assumes "i < length (gets w)" "get_step i fault w = Some w'"
  shows "effect i w w'"
proof (cases "g_pc (gets w ! i)")
  case (G_Top r)
  with assms show ?thesis
    by (auto simp add: get_step_def effect_def Let_def
             split: if_splits option.splits sum.splits)
next
  case (G_Cleanup a e ps)
  with assms show ?thesis
    by (cases ps) (auto simp add: get_step_def effect_def Let_def split: if_splits)
qed (use assms in \<open>auto simp add: get_step_def effect_def Let_def
             split: if_splits option.splits sum.splits\<close>)

lemma builder_returns_effect:
  assumes "i < length (gets w)" "builder_returns i n w = Some w'"
  shows "effect i w w'"
proof (cases "g_pc (gets w ! i)")
  case (G_Building a)
  with assms show ?thesis
    by (cases "create (reg w) (g_hash (gets w ! i))")
       (auto simp add: builder_returns_def effect_def Let_def)
qed (use assms in \<open>simp_all add: builder_returns_def Let_def\<close>)

lemma owns_opD:
  "owns_op w \<Longrightarrow> i < length (gets w) \<Longrightarrow> build_op (g_pc (gets w ! i)) = Some a \<Longrightarrow>
   opMap (reg w) (g_hash (gets w ! i)) = Some a"
  unfolding owns_op_def by blast

lemma one_buildD:
  "one_build w \<Longrightarrow> i < length (gets w) \<Longrightarrow> j < length (gets w) \<Longrightarrow> i \<noteq> j \<Longrightarrow>
   g_hash (gets w ! i) = g_hash (gets w ! j) \<Longrightarrow> build_op (g_pc (gets w ! i)) \<noteq> None \<Longrightarrow>
   build_op (g_pc (gets w ! j)) = None"
  unfolding one_build_def by blast

lemma effect_inv:
  assumes i: "i < length (gets w)" and e: "effect i w w'" and o: "owns_op w" and b: "one_build w"
  shows "owns_op w' \<and> one_build w'"
proof -
  let ?h = "g_hash (gets w ! i)"
  from e have len: "length (gets w') = length (gets w)"
    and oth: "\<And>j. j \<noteq> i \<Longrightarrow> gets w' ! j = gets w ! j"
    and hh: "g_hash (gets w' ! i) = ?h"
    by (simp_all add: effect_def Let_def)
  from e consider
      (install) a where "build_op (g_pc (gets w ! i)) = None" "opMap (reg w) ?h = None"
        "opMap (reg w') = (opMap (reg w))(?h \<mapsto> a)" "build_op (g_pc (gets w' ! i)) = Some a"
    | (release) "build_op (g_pc (gets w ! i)) \<noteq> None" "build_op (g_pc (gets w' ! i)) = None"
        "opMap (reg w') = (opMap (reg w))(?h := None)"
    | (neutral) "opMap (reg w') = opMap (reg w)"
        "build_op (g_pc (gets w' ! i)) = build_op (g_pc (gets w ! i))"
    unfolding effect_def Let_def by (elim conjE disjE exE) simp_all
  then show ?thesis
  proof cases
    case install
    have none: "\<And>j. j < length (gets w) \<Longrightarrow> g_hash (gets w ! j) = ?h \<Longrightarrow> build_op (g_pc (gets w ! j)) = None"
    proof -
      fix j assume j: "j < length (gets w)" "g_hash (gets w ! j) = ?h"
      show "build_op (g_pc (gets w ! j)) = None"
      proof (cases "build_op (g_pc (gets w ! j))")
        case None then show ?thesis .
      next
        case (Some a')
        from owns_opD[OF o j(1) Some] j(2) have "opMap (reg w) ?h = Some a'" by simp
        with install(2) show ?thesis by simp
      qed
    qed
    have "owns_op w'"
      unfolding owns_op_def
    proof (intro allI impI)
      fix j a' assume j: "j < length (gets w')" and ba: "build_op (g_pc (gets w' ! j)) = Some a'"
      show "opMap (reg w') (g_hash (gets w' ! j)) = Some a'"
      proof (cases "j = i")
        case True
        with ba install hh show ?thesis by simp
      next
        case False
        with oth have eq: "gets w' ! j = gets w ! j" by simp
        from j len have jl: "j < length (gets w)" by simp
        from ba eq have ba': "build_op (g_pc (gets w ! j)) = Some a'" by simp
        with none[OF jl] have "g_hash (gets w ! j) \<noteq> ?h" by auto
        moreover from owns_opD[OF o jl ba'] have "opMap (reg w) (g_hash (gets w ! j)) = Some a'" .
        ultimately show ?thesis using install(3) eq by simp
      qed
    qed
    moreover have "one_build w'"
      unfolding one_build_def
    proof (intro allI impI)
      fix j k assume j: "j < length (gets w')" and k: "k < length (gets w')"
        and c: "j \<noteq> k \<and> g_hash (gets w' ! j) = g_hash (gets w' ! k) \<and> build_op (g_pc (gets w' ! j)) \<noteq> None"
      show "build_op (g_pc (gets w' ! k)) = None"
      proof (cases "j = i")
        case True
        with c have ki: "k \<noteq> i" by simp
        with oth have "gets w' ! k = gets w ! k" by simp
        with c True hh none[of k] k len show ?thesis by simp
      next
        case False
        with oth have ej: "gets w' ! j = gets w ! j" by simp
        show ?thesis
        proof (cases "k = i")
          case True
          with c ej hh have "g_hash (gets w ! j) = ?h" by simp
          from none[OF _ this] j len c ej show ?thesis by simp
        next
          case False
          with oth have ek: "gets w' ! k = gets w ! k" by simp
          from j k len have "j < length (gets w)" "k < length (gets w)" by simp_all
          from one_buildD[OF b this] c ej ek show ?thesis by simp
        qed
      qed
    qed
    ultimately show ?thesis ..
  next
    case release
    have others: "\<And>j. j < length (gets w) \<Longrightarrow> j \<noteq> i \<Longrightarrow> g_hash (gets w ! j) = ?h \<Longrightarrow>
                    build_op (g_pc (gets w ! j)) = None"
    proof -
      fix j assume "j < length (gets w)" "j \<noteq> i" "g_hash (gets w ! j) = ?h"
      with one_buildD[OF b i, of j] release(1) show "build_op (g_pc (gets w ! j)) = None" by simp
    qed
    have "owns_op w'"
      unfolding owns_op_def
    proof (intro allI impI)
      fix j a' assume j: "j < length (gets w')" and ba: "build_op (g_pc (gets w' ! j)) = Some a'"
      show "opMap (reg w') (g_hash (gets w' ! j)) = Some a'"
      proof (cases "j = i")
        case True
        with ba release show ?thesis by simp
      next
        case False
        with oth have eq: "gets w' ! j = gets w ! j" by simp
        from j len have jl: "j < length (gets w)" by simp
        from ba eq have ba': "build_op (g_pc (gets w ! j)) = Some a'" by simp
        with others[OF jl False] have "g_hash (gets w ! j) \<noteq> ?h" by auto
        moreover from owns_opD[OF o jl ba'] have "opMap (reg w) (g_hash (gets w ! j)) = Some a'" .
        ultimately show ?thesis using release(3) eq by simp
      qed
    qed
    moreover have "one_build w'"
      unfolding one_build_def
    proof (intro allI impI)
      fix j k assume j: "j < length (gets w')" and k: "k < length (gets w')"
        and c: "j \<noteq> k \<and> g_hash (gets w' ! j) = g_hash (gets w' ! k) \<and> build_op (g_pc (gets w' ! j)) \<noteq> None"
      show "build_op (g_pc (gets w' ! k)) = None"
      proof (cases "k = i")
        case True
        with release show ?thesis by simp
      next
        case False
        with oth have ek: "gets w' ! k = gets w ! k" by simp
        from c release have "j \<noteq> i" by auto
        with oth have ej: "gets w' ! j = gets w ! j" by simp
        from j k len have "j < length (gets w)" "k < length (gets w)" by simp_all
        from one_buildD[OF b this] c ej ek show ?thesis by simp
      qed
    qed
    ultimately show ?thesis ..
  next
    case neutral
    have same: "\<And>j. j < length (gets w) \<Longrightarrow> build_op (g_pc (gets w' ! j)) = build_op (g_pc (gets w ! j)) \<and>
                   g_hash (gets w' ! j) = g_hash (gets w ! j)"
    proof -
      fix j assume "j < length (gets w)"
      show "build_op (g_pc (gets w' ! j)) = build_op (g_pc (gets w ! j)) \<and>
                   g_hash (gets w' ! j) = g_hash (gets w ! j)"
      proof (cases "j = i")
        case True
        with neutral(2) hh show ?thesis by simp
      next
        case False
        with oth show ?thesis by simp
      qed
    qed
    have "owns_op w'"
      unfolding owns_op_def
    proof (intro allI impI)
      fix j a' assume j: "j < length (gets w')" and ba: "build_op (g_pc (gets w' ! j)) = Some a'"
      from j len have jl: "j < length (gets w)" by simp
      from same[OF jl] ba owns_opD[OF o jl, of a'] neutral(1)
      show "opMap (reg w') (g_hash (gets w' ! j)) = Some a'" by simp
    qed
    moreover have "one_build w'"
      unfolding one_build_def
    proof (intro allI impI)
      fix j k assume j: "j < length (gets w')" and k: "k < length (gets w')"
        and c: "j \<noteq> k \<and> g_hash (gets w' ! j) = g_hash (gets w' ! k) \<and> build_op (g_pc (gets w' ! j)) \<noteq> None"
      from j k len have jl: "j < length (gets w)" and kl: "k < length (gets w)" by simp_all
      from one_buildD[OF b jl kl] c same[OF jl] same[OF kl]
      show "build_op (g_pc (gets w' ! k)) = None" by simp
    qed
    ultimately show ?thesis ..
  qed
qed

lemma clock_upd_inv [simp]:
  "owns_op (w\<lparr>clock := t\<rparr>) = owns_op w" "one_build (w\<lparr>clock := t\<rparr>) = one_build w"
  by (simp_all add: owns_op_def one_build_def)

lemma building_build_op:
  "(case pc of G_Building a \<Rightarrow> True | _ \<Rightarrow> False) \<Longrightarrow> build_op pc \<noteq> None"
  by (cases pc) simp_all

lemma step_inv:
  assumes "get_label l" "step l w = Some w'" "owns_op w" "one_build w"
  shows "owns_op w' \<and> one_build w'"
proof (cases l)
  case (GetStep i fault)
  with assms(2) obtain w1 where il: "i < length (gets w)" and g: "get_step i fault w = Some w1"
    and w': "w' = w1\<lparr>clock := clock w1 + 1\<rparr>"
    by (auto simp add: step_def split: if_splits)
  from effect_inv[OF il get_step_effect[OF il g] assms(3,4)] w'
  show ?thesis by simp
next
  case (BuilderReturns i n)
  with assms(2) obtain w1 where il: "i < length (gets w)" and g: "builder_returns i n w = Some w1"
    and w': "w' = w1\<lparr>clock := clock w1 + 1\<rparr>"
    by (auto simp add: step_def split: if_splits)
  from effect_inv[OF il builder_returns_effect[OF il g] assms(3,4)] w'
  show ?thesis by simp
qed (use assms(1) in simp_all)

lemma run_inv:
  "\<forall>l\<in>set ls. get_label l \<Longrightarrow> run ls w = Some w' \<Longrightarrow> owns_op w \<Longrightarrow> one_build w \<Longrightarrow>
   owns_op w' \<and> one_build w'"
proof (induction ls arbitrary: w)
  case Nil
  then show ?case by simp
next
  case (Cons l ls)
  from Cons.prems(2) obtain w1 where s: "step l w = Some w1" and r: "run ls w1 = Some w'"
    by (auto split: option.splits)
  from step_inv[OF _ s Cons.prems(3,4)] Cons.prems(1) have "owns_op w1 \<and> one_build w1" by simp
  with Cons.IH[OF _ r] Cons.prems(1) show ?case by simp
qed

lemma one_build_building: "one_build w \<Longrightarrow> length (building w h) \<le> 1"
proof (rule ccontr)
  assume ob: "one_build w" and "\<not> length (building w h) \<le> 1"
  then have l2: "2 \<le> length (building w h)" by simp
  have d: "distinct (building w h)" by (simp add: building_def)
  let ?i = "building w h ! 0" and ?j = "building w h ! 1"
  from l2 have "(0::nat) < length (building w h)" "(1::nat) < length (building w h)" by linarith+
  with nth_eq_iff_index_eq[OF d, of 0 1] have ne: "?i \<noteq> ?j" by simp
  from l2 have m: "?i \<in> set (building w h)" "?j \<in> set (building w h)"
    by (auto intro: nth_mem)
  from m(1) have i: "?i < length (gets w)" "g_hash (gets w ! ?i) = h"
    "build_op (g_pc (gets w ! ?i)) \<noteq> None"
    by (simp_all add: building_def building_build_op)
  from m(2) have j: "?j < length (gets w)" "g_hash (gets w ! ?j) = h"
    "build_op (g_pc (gets w ! ?j)) \<noteq> None"
    by (simp_all add: building_def building_build_op)
  from one_buildD[OF ob i(1) j(1) ne] i j show False by simp
qed

text \<open>
  Among \<^verbatim>\<open>Get\<close> goroutines alone the builds do exclude each other: in every run made of
  steps of \<^verbatim>\<open>Get\<close> goroutines only, from a state in which every build has its op
  registered and no two builds are for one hash, at most one goroutine is inside the
  builder for a hash. The collector is what breaks this, as the example of claim C3 shows.
\<close>

lemma Gets_alone_one_builder:
  assumes "\<forall>l\<in>set ls. get_label l" "run ls w = Some w'" "owns_op w" "one_build w"
  shows "length (building w' h) \<le> 1"
  using run_inv[OF assms] one_build_building by blast

subsection \<open>One builder at a time\<close>

text \<open>
  Claim C3 says that at most one builder runs for a digest at any time. \<^verbatim>\<open>rmCache\<close>
  registers its removal op with \<^verbatim>\<open>c.opMap[hash] = op\<close> without looking for an op that
  is there, and \<^verbatim>\<open>Get\<close> ends a build with \<^verbatim>\<open>delete(c.opMap, hash)\<close> whatever op is
  registered. In the example schedule: after 7 steps goroutine 0 has renamed its file into
  place and its op (address 0) is registered; after 17 steps the collector has removed
  that file, and no op is registered; after 21 steps goroutine 1 is inside the builder
  with its op (address 2) registered; after 22 steps goroutine 0 has published and no op is
  registered, while goroutine 1 is still inside the builder; at the end goroutines 1 and 2
  are both inside the builder for the same hash.
\<close>

theorem two_builders_for_one_digest:
  "(case run (take 7 ex_schedule) ex_world of
      Some w \<Rightarrow> map g_pc (gets w) = [G_Publish 0 100, G_Top False, G_Top False] \<and>
               opMap (reg w) ex_hash = Some 0 \<and> files w ex_path = Some \<lparr>Size = 100, ModTime = 2004\<rparr>
    | None \<Rightarrow> False) \<and>
   (case run (take 17 ex_schedule) ex_world of
      Some w \<Rightarrow> map g_pc (gets w) = [G_Publish 0 100, G_Top False, G_Top False] \<and>
               opMap (reg w) ex_hash = None \<and> files w ex_path = None \<and> numRemoved (reg w) = 1
    | None \<Rightarrow> False) \<and>
   (case run (take 21 ex_schedule) ex_world of
      Some w \<Rightarrow> map g_pc (gets w) = [G_Publish 0 100, G_Building 2, G_Top False] \<and>
               opMap (reg w) ex_hash = Some 2
    | None \<Rightarrow> False) \<and>
   (case run (take 22 ex_schedule) ex_world of
      Some w \<Rightarrow> map g_pc (gets w) = [G_Open True 0, G_Building 2, G_Top False] \<and>
               opMap (reg w) ex_hash = None
    | None \<Rightarrow> False) \<and>
   (case run ex_schedule ex_world of
      Some w \<Rightarrow> map g_pc (gets w) = [G_Open True 0, G_Building 2, G_Building 3] \<and>
               map g_hash (gets w) = [ex_hash, ex_hash, ex_hash] \<and>
               building w ex_hash = [1, 2]
    | None \<Rightarrow> False)"
  by code_simp

end
